theory Spec2Isabelle
  imports
    Main
    "HOL-Library.Signed_Division"
    "HOL-Library.Log_Nat"
    "HOL-Library.Sublist"
begin

section \<open>The host library, as far as static.go calls it\<close>

text \<open>
  static.go is a thin wrapper around Go's standard library. The calls it makes are
  modelled here from the library's documented behaviour: \<^verbatim>\<open>strings.HasPrefix\<close>,
  \<^verbatim>\<open>time.Duration.Seconds\<close>, the conversion \<^verbatim>\<open>int(float64)\<close>, \<^verbatim>\<open>fmt.Sprintf("%d")\<close>,
  \<^verbatim>\<open>http.Header.Set\<close>, \<^verbatim>\<open>http.ResponseWriter\<close>, \<^verbatim>\<open>http.Error\<close>, \<^verbatim>\<open>http.NotFound\<close> and
  \<^verbatim>\<open>http.StripPrefix\<close>. The two collaborators whose behaviour depends on the file
  store, \<^verbatim>\<open>fs.Sub\<close> and the handler of \<^verbatim>\<open>http.FileServer\<close>, are parameters of the model
  (record \<open>host\<close> below), as is the next handler of the chain. What
  \<^verbatim>\<open>http.FileServer\<close>'s handler does before it has opened a file, which is where a
  path that names nothing is answered, is modelled as well (\<open>fileHandlerServeHTTP\<close>),
  for the statements about such paths.
\<close>

subsection \<open>strings\<close>

text \<open>\<^verbatim>\<open>strings.HasPrefix(s, prefix)\<close>: \<^verbatim>\<open>len(s) >= len(prefix) && s[:len(prefix)] == prefix\<close>.
  A Go string is a byte sequence; so is a HOL \<open>string\<close>.\<close>

definition HasPrefix :: "string \<Rightarrow> string \<Rightarrow> bool" where
  "HasPrefix s pfx = (length pfx \<le> length s \<and> take (length pfx) s = pfx)"

text \<open>\<^verbatim>\<open>strings.TrimPrefix(s, prefix)\<close>: \<^verbatim>\<open>s[len(prefix):]\<close> when \<^verbatim>\<open>s\<close> has the prefix,
  \<^verbatim>\<open>s\<close> itself otherwise.\<close>

definition TrimPrefix :: "string \<Rightarrow> string \<Rightarrow> string" where
  "TrimPrefix s pfx = (if HasPrefix s pfx then drop (length pfx) s else s)"

subsection \<open>time.Duration and its float64 seconds\<close>

text \<open>
  A \<^verbatim>\<open>time.Duration\<close> is an int64 count of nanoseconds, here an \<open>int\<close> (static.go only
  compares it with 0 and converts it; nothing can overflow).
  \<^verbatim>\<open>Seconds\<close> is, in the library,
  \<^verbatim>\<open>sec := d / Second; nsec := d % Second; return float64(sec) + float64(nsec)/1e9\<close>:
  Go's \<^verbatim>\<open>/\<close> and \<^verbatim>\<open>%\<close> truncate towards zero (\<open>sdiv\<close>, \<open>smod\<close>), and each float64
  operation yields the double nearest to the exact result, ties to even.
  \<open>float64 x\<close> is that double, as a rational, for \<open>x\<close> in the normal range of the
  format (the values met here are 0 or between \<open>10\<^sup>-\<^sup>9\<close> and \<open>10\<^sup>1\<^sup>0\<close> in magnitude).
\<close>

definition rne :: "rat \<Rightarrow> int" where
  \<comment> \<open>the nearest integer, a tie going to the even one\<close>
  "rne x = (let f = \<lfloor>x\<rfloor>; r = x - of_int f
            in if r < 1 / 2 then f else if 1 / 2 < r then f + 1
               else if even f then f else f + 1)"

definition ilog2 :: "rat \<Rightarrow> int" where
  \<comment> \<open>\<open>\<lfloor>log\<^sub>2 x\<rfloor>\<close> for \<open>0 < x\<close>, from the bit lengths of numerator and denominator\<close>
  "ilog2 x = (let (n, d) = quotient_of x; k = bitlen n - bitlen d
              in if 2 powi k \<le> x then k else k - 1)"

definition float64 :: "rat \<Rightarrow> rat" where
  \<comment> \<open>53 significant bits: the unit in the last place of \<open>x\<close> is \<open>2 powi (ilog2 \<bar>x\<bar> - 52)\<close>\<close>
  "float64 x = (if x = 0 then 0
                else let e = ilog2 \<bar>x\<bar> - 52
                     in of_int (rne (x / 2 powi e)) * 2 powi e)"

definition Second :: int where
  "Second = 1000000000"

definition Seconds :: "int \<Rightarrow> rat" where
  "Seconds d = (let sec = d sdiv Second; nsec = d smod Second
                in float64 (float64 (of_int sec)
                            + float64 (float64 (of_int nsec) / float64 1000000000)))"

text \<open>\<^verbatim>\<open>int(f)\<close> for a float64 \<^verbatim>\<open>f\<close>: the fraction is discarded (truncation towards zero).
  The value fits an int: \<open>\<bar>Seconds d\<bar> < 10\<^sup>1\<^sup>0\<close> for every int64 \<open>d\<close>.\<close>

definition truncInt :: "rat \<Rightarrow> int" where
  "truncInt x = (if 0 \<le> x then \<lfloor>x\<rfloor> else \<lceil>x\<rceil>)"

subsection \<open>fmt\<close>

text \<open>The verb \<^verbatim>\<open>%d\<close>: decimal digits, a minus sign before a negative number.\<close>

function digitsOf :: "int \<Rightarrow> string" where
  "digitsOf n = (if n < 10 then [''0123456789'' ! nat n]
                 else digitsOf (n div 10) @ [''0123456789'' ! nat (n mod 10)])"
  by pat_completeness auto
termination
  by (relation "measure nat") auto

declare digitsOf.simps [simp del]

definition itoa :: "int \<Rightarrow> string" where
  "itoa i = (if i < 0 then CHR ''-'' # digitsOf (- i) else digitsOf i)"

subsection \<open>net/http: requests, response writers, error replies\<close>

text \<open>Of a request the code reads \<^verbatim>\<open>r.URL.Path\<close>; \<^verbatim>\<open>http.StripPrefix\<close> also reads
  \<^verbatim>\<open>r.URL.RawPath\<close>, the escaped form the URL parser keeps when it differs from the
  default encoding of the path (empty otherwise); the file server copies
  \<^verbatim>\<open>r.URL.RawQuery\<close> into its redirects.\<close>

record Request =
  Method :: string
  Path :: string
  RawPath :: string
  RawQuery :: string

text \<open>A response writer: the header map (\<^verbatim>\<open>map[string][]string\<close>), the status once
  \<^verbatim>\<open>WriteHeader\<close> has run, the bytes written. The first \<^verbatim>\<open>WriteHeader\<close> wins; a
  \<^verbatim>\<open>Write\<close> before any \<^verbatim>\<open>WriteHeader\<close> implies status 200.\<close>

type_synonym Header = "string \<rightharpoonup> string list"

record ResponseWriter =
  header :: Header
  status :: "nat option"
  body :: string

definition newResponse :: ResponseWriter where
  "newResponse = \<lparr>header = Map.empty, status = None, body = []\<rparr>"

definition HeaderSet :: "string \<Rightarrow> string \<Rightarrow> ResponseWriter \<Rightarrow> ResponseWriter" where
  \<comment> \<open>\<^verbatim>\<open>w.Header().Set(key, value)\<close>; the keys used are in canonical form already\<close>
  "HeaderSet k v w = w\<lparr>header := (header w)(k \<mapsto> [v])\<rparr>"

definition HeaderDel :: "string \<Rightarrow> ResponseWriter \<Rightarrow> ResponseWriter" where
  "HeaderDel k w = w\<lparr>header := (header w)(k := None)\<rparr>"

definition WriteHeader :: "nat \<Rightarrow> ResponseWriter \<Rightarrow> ResponseWriter" where
  "WriteHeader code w = (if status w = None then w\<lparr>status := Some code\<rparr> else w)"

definition Write :: "string \<Rightarrow> ResponseWriter \<Rightarrow> ResponseWriter" where
  "Write bs w = (let w1 = WriteHeader 200 w in w1\<lparr>body := body w1 @ bs\<rparr>)"

text \<open>\<^verbatim>\<open>http.Error(w, error, code)\<close>: deletes Content-Length (since Go 1.23), sets the
  content type to plain text and nosniff, writes the status, then prints the message
  with \<^verbatim>\<open>fmt.Fprintln\<close>, which appends a newline.\<close>

definition httpError :: "ResponseWriter \<Rightarrow> string \<Rightarrow> nat \<Rightarrow> ResponseWriter" where
  "httpError w msg code =
     Write (msg @ [CHR 0x0A])
       (WriteHeader code
         (HeaderSet ''X-Content-Type-Options'' ''nosniff''
           (HeaderSet ''Content-Type'' ''text/plain; charset=utf-8''
             (HeaderDel ''Content-Length'' w))))"

definition StatusNotFound :: nat where
  "StatusNotFound = 404"

definition StatusInternalServerError :: nat where
  "StatusInternalServerError = 500"

definition NotFound :: "ResponseWriter \<Rightarrow> ResponseWriter" where
  \<comment> \<open>\<^verbatim>\<open>http.NotFound(w, r)\<close>\<close>
  "NotFound w = httpError w ''404 page not found'' StatusNotFound"

text \<open>
  \<^verbatim>\<open>http.StripPrefix(prefix, h)\<close>, as documented: it removes the prefix from the
  request URL's Path (and RawPath if set) and invokes \<^verbatim>\<open>h\<close> on a copy of the request;
  a request whose path does not begin with the prefix, or whose escaped path does
  not, is answered with 404 and \<^verbatim>\<open>h\<close> is not invoked. With an empty prefix it is \<^verbatim>\<open>h\<close>.
  Handlers act on the state \<open>'st\<close>; \<open>nf\<close> is what \<^verbatim>\<open>http.NotFound\<close> does to it.
\<close>

definition StripPrefix ::
  "string \<Rightarrow> ('st \<Rightarrow> 'st) \<Rightarrow> (Request \<Rightarrow> 'st \<Rightarrow> 'st) \<Rightarrow> Request \<Rightarrow> 'st \<Rightarrow> 'st" where
  "StripPrefix pfx nf h r s =
     (if pfx = [] then h r s
      else let p = TrimPrefix (Path r) pfx; rp = TrimPrefix (RawPath r) pfx
           in if length p < length (Path r)
                 \<and> (RawPath r = [] \<or> length rp < length (RawPath r))
              then h (r\<lparr>Path := p, RawPath := rp\<rparr>) s
              else nf s)"

subsection \<open>path.Clean\<close>





subsection \<open>net/http: the file server, up to opening the file\<close>


definition StatusMovedPermanently :: nat where
  "StatusMovedPermanently = 301"


text \<open>\<^verbatim>\<open>localRedirect(w, r, newPath)\<close>: the query string is kept, the new path goes into
  the Location header as it is (relative), the status is 301.\<close>

definition localRedirect :: "ResponseWriter \<Rightarrow> Request \<Rightarrow> string \<Rightarrow> ResponseWriter" where
  "localRedirect w r newPath =
     WriteHeader StatusMovedPermanently
       (HeaderSet ''Location''
          (if RawQuery r \<noteq> [] then newPath @ ''?'' @ RawQuery r else newPath) w)"







section \<open>static.go\<close>

subsection \<open>Logger, Config, StaticMiddleware\<close>

text \<open>A \<^verbatim>\<open>Logger\<close> is anything with a \<^verbatim>\<open>Printf\<close>: the standard library's logger built by
  \<^verbatim>\<open>log.New(out, prefix, flags)\<close>, or a logger of the caller's. The interface value may be
  nil: \<open>None\<close>.\<close>

datatype logOutput = Stdout | Stderr

datatype logger = LogNew logOutput string nat | UserLogger nat

definition LstdFlags :: nat where
  \<comment> \<open>\<^verbatim>\<open>log.Ldate | log.Ltime\<close>\<close>
  "LstdFlags = 3"

record 'fs Config =
  StaticFS :: 'fs
  StaticRoot :: string
  StaticFilePrefix :: string
  CacheDuration :: int
  Debug :: bool
  Logger :: "logger option"

record 'fs StaticMiddleware =
  config :: "'fs Config"

subsection \<open>The collaborators and the state a request is handled in\<close>

text \<open>
  \<open>fsSub\<close> is \<^verbatim>\<open>fs.Sub\<close>: the rooted view, or the error (its message).
  \<open>fileServer fsys\<close> is what \<^verbatim>\<open>http.FileServer(http.FS(fsys)).ServeHTTP\<close> does to the
  response writer for a request. Both are functions: a store is a value of \<open>'fs\<close>
  (never nil), rooting the same store at the same directory gives the same outcome,
  and the collaborators return.
\<close>

record 'fs host =
  fsSub :: "'fs \<Rightarrow> string \<Rightarrow> string + 'fs"
  fileServer :: "'fs \<Rightarrow> Request \<Rightarrow> ResponseWriter \<Rightarrow> ResponseWriter"

text \<open>
  The state: the middleware instance the handler closure points to (\<open>mw\<close>), the
  response writer of the request (\<open>rw\<close>), the lines printed through loggers, and the
  calls made so far to the next handler and to the file server, oldest first.
\<close>

record ('m, 'fs) world =
  mw :: 'm
  rw :: ResponseWriter
  logged :: "(logger \<times> string) list"
  nextCalls :: "Request list"
  fileCalls :: "('fs \<times> Request) list"

datatype panic = NilLogger

text \<open>\<^verbatim>\<open>l.Printf(format, v...)\<close> on the interface value \<open>l\<close>: a nil value panics (nil
  pointer dereference). \<open>line\<close> is the formatted text.\<close>

definition Printf :: "logger option \<Rightarrow> string \<Rightarrow> ('m, 'fs) world \<Rightarrow> panic + ('m, 'fs) world" where
  "Printf l line s =
     (case l of
        None \<Rightarrow> Inl NilLogger
      | Some lg \<Rightarrow> Inr (s\<lparr>logged := logged s @ [(lg, line)]\<rparr>))"

definition andThen :: "panic + 'a \<Rightarrow> ('a \<Rightarrow> panic + 'b) \<Rightarrow> panic + 'b" where
  \<comment> \<open>sequencing: a panic ends the handler\<close>
  "andThen x f = (case x of Inl p \<Rightarrow> Inl p | Inr a \<Rightarrow> f a)"

definition nextServeHTTP ::
  "(Request \<Rightarrow> ResponseWriter \<Rightarrow> ResponseWriter) \<Rightarrow> Request \<Rightarrow> ('m, 'fs) world \<Rightarrow> ('m, 'fs) world" where
  \<comment> \<open>\<^verbatim>\<open>next.ServeHTTP(w, r)\<close>\<close>
  "nextServeHTTP nxt r s = s\<lparr>rw := nxt r (rw s), nextCalls := nextCalls s @ [r]\<rparr>"

definition fileServerServeHTTP ::
  "'fs host \<Rightarrow> 'fs \<Rightarrow> Request \<Rightarrow> ('m, 'fs) world \<Rightarrow> ('m, 'fs) world" where
  \<comment> \<open>\<^verbatim>\<open>fileServer.ServeHTTP(w, r)\<close> for \<^verbatim>\<open>fileServer := http.FileServer(http.FS(staticFS))\<close>\<close>
  "fileServerServeHTTP h staticFS r s =
     s\<lparr>rw := fileServer h staticFS r (rw s), fileCalls := fileCalls s @ [(staticFS, r)]\<rparr>"

definition replyNotFound :: "('m, 'fs) world \<Rightarrow> ('m, 'fs) world" where
  "replyNotFound s = s\<lparr>rw := NotFound (rw s)\<rparr>"

subsection \<open>NewStaticMiddleware\<close>

definition defaultLogger :: logger where
  \<comment> \<open>\<^verbatim>\<open>log.New(os.Stdout, "DEBUG: ", log.LstdFlags)\<close>\<close>
  "defaultLogger = LogNew Stdout ''DEBUG: '' LstdFlags"

definition NewStaticMiddleware :: "'fs Config \<Rightarrow> 'fs StaticMiddleware" where
  "NewStaticMiddleware cfg =
     (let cfg1 = (if Debug cfg \<and> Logger cfg = None
                  then cfg\<lparr>Logger := Some defaultLogger\<rparr> else cfg)
      in \<lparr>config = cfg1\<rparr>)"

subsection \<open>serveStaticFiles and Handler\<close>

definition cacheControlValue :: "int \<Rightarrow> string" where
  \<comment> \<open>\<^verbatim>\<open>fmt.Sprintf("public, max-age=%d", int(m.config.CacheDuration.Seconds()))\<close>\<close>
  "cacheControlValue d = ''public, max-age='' @ itoa (truncInt (Seconds d))"

definition serveStaticFiles ::
  "'fs host \<Rightarrow> Request \<Rightarrow> ('fs StaticMiddleware, 'fs) world
     \<Rightarrow> panic + ('fs StaticMiddleware, 'fs) world" where
  "serveStaticFiles h r s =
     (let c = config (mw s) in
      case fsSub h (StaticFS c) (StaticRoot c) of
        Inl err \<Rightarrow>
          andThen (if Debug c
                   then Printf (Logger c) (''Error creating sub-filesystem: '' @ err) s
                   else Inr s)
            (\<lambda>s1. Inr (s1\<lparr>rw := httpError (rw s1) err StatusInternalServerError\<rparr>))
      | Inr staticFS \<Rightarrow>
          let s1 = (if 0 < CacheDuration c
                    then s\<lparr>rw := HeaderSet ''Cache-Control''
                                   (cacheControlValue (CacheDuration c)) (rw s)\<rparr>
                    else s)
          in Inr (StripPrefix (StaticFilePrefix c) replyNotFound
                    (fileServerServeHTTP h staticFS) r s1))"

definition Handler ::
  "'fs host \<Rightarrow> (Request \<Rightarrow> ResponseWriter \<Rightarrow> ResponseWriter) \<Rightarrow> Request
     \<Rightarrow> ('fs StaticMiddleware, 'fs) world \<Rightarrow> panic + ('fs StaticMiddleware, 'fs) world" where
  "Handler h nxt r s =
     (let c = config (mw s) in
      if HasPrefix (Path r) (StaticFilePrefix c)
      then andThen (if Debug c
                    then Printf (Logger c) (''Serving static file: '' @ Path r) s
                    else Inr s)
             (serveStaticFiles h r)
      else andThen (if Debug c
                    then Printf (Logger c) (''Passing request to next handler: '' @ Path r) s
                    else Inr s)
             (\<lambda>s1. Inr (nextServeHTTP nxt r s1)))"

text \<open>Requests handled one after another by the same handler, each with a response
  writer of its own, as the server does.\<close>

fun handleAll ::
  "'fs host \<Rightarrow> (Request \<Rightarrow> ResponseWriter \<Rightarrow> ResponseWriter) \<Rightarrow> Request list
     \<Rightarrow> ('fs StaticMiddleware, 'fs) world \<Rightarrow> panic + ('fs StaticMiddleware, 'fs) world" where
  "handleAll h nxt [] s = Inr s"
| "handleAll h nxt (r # rs) s =
     andThen (Handler h nxt r (s\<lparr>rw := newResponse\<rparr>)) (handleAll h nxt rs)"

subsection \<open>The variant of the design notes: rooting once, at construction\<close>

text \<open>
  The spec's design notes allow an implementer to compute the rooted view when the
  middleware is constructed and to keep it. This is that variant, written from the
  spec's words: construction normalises the logger as before and stores the outcome of
  rooting (the view or the error); a request is then handled as in static.go, from
  the stored outcome.
\<close>

record 'fs CachedMiddleware =
  cachedConfig :: "'fs Config"
  rooted :: "string + 'fs"

definition NewCachedMiddleware :: "'fs host \<Rightarrow> 'fs Config \<Rightarrow> 'fs CachedMiddleware" where
  "NewCachedMiddleware h cfg =
     (let cfg1 = (if Debug cfg \<and> Logger cfg = None
                  then cfg\<lparr>Logger := Some defaultLogger\<rparr> else cfg)
      in \<lparr>cachedConfig = cfg1, rooted = fsSub h (StaticFS cfg1) (StaticRoot cfg1)\<rparr>)"

definition cachedServeStaticFiles ::
  "'fs host \<Rightarrow> Request \<Rightarrow> ('fs CachedMiddleware, 'fs) world
     \<Rightarrow> panic + ('fs CachedMiddleware, 'fs) world" where
  "cachedServeStaticFiles h r s =
     (let c = cachedConfig (mw s) in
      case rooted (mw s) of
        Inl err \<Rightarrow>
          andThen (if Debug c
                   then Printf (Logger c) (''Error creating sub-filesystem: '' @ err) s
                   else Inr s)
            (\<lambda>s1. Inr (s1\<lparr>rw := httpError (rw s1) err StatusInternalServerError\<rparr>))
      | Inr staticFS \<Rightarrow>
          let s1 = (if 0 < CacheDuration c
                    then s\<lparr>rw := HeaderSet ''Cache-Control''
                                   (cacheControlValue (CacheDuration c)) (rw s)\<rparr>
                    else s)
          in Inr (StripPrefix (StaticFilePrefix c) replyNotFound
                    (fileServerServeHTTP h staticFS) r s1))"

definition CachedHandler ::
  "'fs host \<Rightarrow> (Request \<Rightarrow> ResponseWriter \<Rightarrow> ResponseWriter) \<Rightarrow> Request
     \<Rightarrow> ('fs CachedMiddleware, 'fs) world \<Rightarrow> panic + ('fs CachedMiddleware, 'fs) world" where
  "CachedHandler h nxt r s =
     (let c = cachedConfig (mw s) in
      if HasPrefix (Path r) (StaticFilePrefix c)
      then andThen (if Debug c
                    then Printf (Logger c) (''Serving static file: '' @ Path r) s
                    else Inr s)
             (cachedServeStaticFiles h r)
      else andThen (if Debug c
                    then Printf (Logger c) (''Passing request to next handler: '' @ Path r) s
                    else Inr s)
             (\<lambda>s1. Inr (nextServeHTTP nxt r s1)))"

text \<open>What a client and the rest of the chain can observe of a handled request: the
  response, the log lines, the calls to the next handler and to the file server.\<close>

definition observable ::
  "('m, 'fs) world \<Rightarrow> ResponseWriter \<times> (logger \<times> string) list \<times> Request list \<times> ('fs \<times> Request) list" where
  "observable s = (rw s, logged s, nextCalls s, fileCalls s)"

section \<open>Notions used in the statements\<close>

text \<open>The lines a debug print adds to the log: one line, through the configured
  logger, when debugging is on.\<close>

definition logLines :: "'fs Config \<Rightarrow> string \<Rightarrow> (logger \<times> string) list" where
  "logLines c line =
     (if Debug c then (case Logger c of Some lg \<Rightarrow> [(lg, line)] | None \<Rightarrow> []) else [])"

text \<open>The request with the prefix cut off its path and its escaped path.\<close>

definition stripped :: "string \<Rightarrow> Request \<Rightarrow> Request" where
  "stripped pfx r =
     r\<lparr>Path := drop (length pfx) (Path r), RawPath := drop (length pfx) (RawPath r)\<rparr>"


text \<open>The response writer as the file server receives it: with the Cache-Control
  header of a positive cache duration, untouched otherwise.\<close>

definition withCacheControl :: "'fs Config \<Rightarrow> ResponseWriter \<Rightarrow> ResponseWriter" where
  "withCacheControl c w =
     (if 0 < CacheDuration c
      then HeaderSet ''Cache-Control'' (cacheControlValue (CacheDuration c)) w
      else w)"

text \<open>A world with an earlier history put in front of its own: log lines, calls to
  the next handler and calls to the file server that happened before.\<close>

definition history ::
  "(logger \<times> string) list \<Rightarrow> Request list \<Rightarrow> ('fs \<times> Request) list
     \<Rightarrow> ('m, 'fs) world \<Rightarrow> ('m, 'fs) world" where
  "history l n f s =
     s\<lparr>logged := l @ logged s, nextCalls := n @ nextCalls s, fileCalls := f @ fileCalls s\<rparr>"

text \<open>What handling a request added to the world \<open>s\<close>, seen in the world \<open>s'\<close> after
  it: the response, the middleware instance, and the new entries of log and calls.\<close>

definition effect ::
  "('m, 'fs) world \<Rightarrow> ('m, 'fs) world
     \<Rightarrow> ResponseWriter \<times> 'm \<times> (logger \<times> string) list \<times> Request list \<times> ('fs \<times> Request) list" where
  "effect s s' =
     (rw s', mw s', drop (length (logged s)) (logged s'),
      drop (length (nextCalls s)) (nextCalls s'), drop (length (fileCalls s)) (fileCalls s'))"

text \<open>A world of static.go and a world of the rooting-once variant agree when they
  show the same to an observer and the variant's instance stores the same
  configuration, with the outcome of rooting it.\<close>

definition agree ::
  "'fs host \<Rightarrow> ('fs StaticMiddleware, 'fs) world \<Rightarrow> ('fs CachedMiddleware, 'fs) world \<Rightarrow> bool" where
  "agree h s t =
     (observable s = observable t
      \<and> cachedConfig (mw t) = config (mw s)
      \<and> rooted (mw t) = fsSub h (StaticFS (config (mw s))) (StaticRoot (config (mw s))))"

section \<open>A concrete host, for examples\<close>

text \<open>
  The tests of the repository run the middleware over an \<^verbatim>\<open>fstest.MapFS\<close>: a map from
  slash-separated names to file contents. \<open>mapSub\<close> is \<^verbatim>\<open>fs.Sub\<close> on such a store:
  \<^verbatim>\<open>fs.Sub\<close> rejects a directory that is not a valid path (\<^verbatim>\<open>fs.ValidPath\<close>) with the
  error \<^verbatim>\<open>sub <dir>: invalid argument\<close>, returns the store itself for \<^verbatim>\<open>"."\<close>, and
  otherwise the view of the names below the directory.
\<close>

type_synonym MapFS = "(string \<times> string) list"

definition inRange :: "nat \<Rightarrow> nat \<Rightarrow> nat \<Rightarrow> bool" where
  "inRange lo hi b = (lo \<le> b \<and> b \<le> hi)"

fun validUTF8 :: "nat list \<Rightarrow> bool" where
  "validUTF8 [] = True"
| "validUTF8 (a # bs) =
     (if a < 0x80 then validUTF8 bs
      else if inRange 0xC2 0xDF a then
        (case bs of
           b # t \<Rightarrow> inRange 0x80 0xBF b \<and> validUTF8 t
         | _ \<Rightarrow> False)
      else if inRange 0xE0 0xEF a then
        (case bs of
           b # c # t \<Rightarrow>
             inRange (if a = 0xE0 then 0xA0 else 0x80) (if a = 0xED then 0x9F else 0xBF) b
             \<and> inRange 0x80 0xBF c \<and> validUTF8 t
         | _ \<Rightarrow> False)
      else if inRange 0xF0 0xF4 a then
        (case bs of
           b # c # d # t \<Rightarrow>
             inRange (if a = 0xF0 then 0x90 else 0x80) (if a = 0xF4 then 0x8F else 0xBF) b
             \<and> inRange 0x80 0xBF c \<and> inRange 0x80 0xBF d \<and> validUTF8 t
         | _ \<Rightarrow> False)
      else False)"

text \<open>The loop of \<^verbatim>\<open>fs.ValidPath\<close>: every slash-separated element must be non-empty and
  neither \<^verbatim>\<open>.\<close> nor \<^verbatim>\<open>..\<close>.\<close>

function validElements :: "string \<Rightarrow> bool" where
  "validElements name =
     (let elem = takeWhile (\<lambda>c. c \<noteq> CHR ''/'') name;
          rest = dropWhile (\<lambda>c. c \<noteq> CHR ''/'') name
      in if elem = [] \<or> elem = ''.'' \<or> elem = ''..'' then False
         else if rest = [] then True
         else validElements (tl rest))"
  by pat_completeness auto
termination
proof (relation "measure length")
  show "wf (measure length)" by simp
next
  fix name :: string and elem rest
  assume "rest = dropWhile (\<lambda>c. c \<noteq> CHR ''/'') name" and "rest \<noteq> []"
  then have "length (tl rest) < length rest" and "length rest \<le> length name"
    by (simp_all add: length_dropWhile_le)
  then show "(tl rest, name) \<in> measure length" by simp
qed

declare validElements.simps [simp del]

definition ValidPath :: "string \<Rightarrow> bool" where
  "ValidPath name =
     (if \<not> validUTF8 (map of_char name) then False
      else if name = ''.'' then True
      else validElements name)"

definition mapSub :: "MapFS \<Rightarrow> string \<Rightarrow> string + MapFS" where
  "mapSub fsys dir =
     (if \<not> ValidPath dir then Inl (''sub '' @ dir @ '': invalid argument'')
      else if dir = ''.'' then Inr fsys
      else Inr (map (\<lambda>(name, data). (drop (length dir + 1) name, data))
                  (filter (\<lambda>(name, data). HasPrefix name (dir @ ''/'')) fsys)))"

text \<open>
  A stand-in for the file server, for examples only (what is proved of the middleware
  holds for every file server): a stored file is answered with its bytes and status
  200, anything else with 404. Before an error reply, net/http's file server deletes the headers that
  describe the file (Cache-Control among them) since Go 1.23, unless the setting
  \<^verbatim>\<open>httpservecontentkeepheaders=1\<close> asks for the older behaviour: \<open>keep\<close>.
\<close>

definition stubFileServer :: "bool \<Rightarrow> MapFS \<Rightarrow> Request \<Rightarrow> ResponseWriter \<Rightarrow> ResponseWriter" where
  "stubFileServer keep fsys r w =
     (let upath = (if HasPrefix (Path r) ''/'' then Path r else CHR ''/'' # Path r)
      in case map_of fsys (drop 1 upath) of
           Some data \<Rightarrow> Write data w
         | None \<Rightarrow>
             httpError
               (if keep then w
                else HeaderDel ''Last-Modified'' (HeaderDel ''Etag''
                       (HeaderDel ''Content-Encoding'' (HeaderDel ''Cache-Control'' w))))
               ''404 page not found'' StatusNotFound)"

definition stubHost :: "bool \<Rightarrow> MapFS host" where
  "stubHost keep = \<lparr>fsSub = mapSub, fileServer = stubFileServer keep\<rparr>"





definition mockFS :: MapFS where
  \<comment> \<open>the store of the repository's tests\<close>
  "mockFS = [(''static/testfile.css'', ''body {}'')]"

definition testConfig :: "string \<Rightarrow> int \<Rightarrow> bool \<Rightarrow> MapFS Config" where
  "testConfig dir d dbg =
     \<lparr>StaticFS = mockFS, StaticRoot = dir, StaticFilePrefix = ''/static'',
      CacheDuration = d, Debug = dbg, Logger = None\<rparr>"

definition GET :: "string \<Rightarrow> Request" where
  "GET p = \<lparr>Method = ''GET'', Path = p, RawPath = [], RawQuery = []\<rparr>"

definition start :: "'m \<Rightarrow> ('m, 'fs) world" where
  "start m = \<lparr>mw = m, rw = newResponse, logged = [], nextCalls = [], fileCalls = []\<rparr>"

definition nextStub :: "Request \<Rightarrow> ResponseWriter \<Rightarrow> ResponseWriter" where
  \<comment> \<open>a next handler that answers 204 and nothing else\<close>
  "nextStub r w = WriteHeader 204 w"

text \<open>A request whose escaped path differs from its path: \<^verbatim>\<open>GET /%73tatic/testfile.css\<close>,
  which the URL parser decodes to the path \<^verbatim>\<open>/static/testfile.css\<close> and keeps, as
  sent, in \<^verbatim>\<open>URL.RawPath\<close>.\<close>

definition escapedRequest :: Request where
  "escapedRequest =
     \<lparr>Method = ''GET'', Path = ''/static/testfile.css'', RawPath = ''/%73tatic/testfile.css'',
      RawQuery = []\<rparr>"

definition testWorld :: "string \<Rightarrow> int \<Rightarrow> bool \<Rightarrow> (MapFS StaticMiddleware, MapFS) world" where
  \<comment> \<open>a fresh request against the middleware constructed from \<open>testConfig\<close>\<close>
  "testWorld dir d dbg = start (NewStaticMiddleware (testConfig dir d dbg))"

lemmas example_defs =
  testWorld_def start_def testConfig_def GET_def mockFS_def stubHost_def nextStub_def
  newResponse_def NewStaticMiddleware_def defaultLogger_def LstdFlags_def

section \<open>Basic facts\<close>

lemma HasPrefix_iff_prefix: "HasPrefix s pfx \<longleftrightarrow> prefix pfx s"
  unfolding HasPrefix_def
  by (metis append_eq_conv_conj prefix_def prefix_length_le take_is_prefix)

lemma HasPrefix_empty: "HasPrefix s []"
  by (simp add: HasPrefix_def)

lemma TrimPrefix_drop: "prefix pfx s \<Longrightarrow> TrimPrefix s pfx = drop (length pfx) s"
  by (simp add: TrimPrefix_def HasPrefix_iff_prefix)

lemma New_logger_present:
  "Debug (config (NewStaticMiddleware cfg)) \<Longrightarrow> Logger (config (NewStaticMiddleware cfg)) \<noteq> None"
  by (auto simp: NewStaticMiddleware_def)

lemma debug_Printf:
  assumes "Debug c \<longrightarrow> Logger c \<noteq> None"
  shows "(if Debug c then Printf (Logger c) line s else Inr s)
         = Inr (s\<lparr>logged := logged s @ logLines c line\<rparr>)"
  using assms by (auto simp: Printf_def logLines_def)

lemma serveStaticFiles_nextCalls:
  "serveStaticFiles h r s = Inr s' \<Longrightarrow> nextCalls s' = nextCalls s"
  by (auto simp: serveStaticFiles_def andThen_def Printf_def StripPrefix_def Let_def
        fileServerServeHTTP_def replyNotFound_def
      split: sum.splits option.splits if_splits)

lemma serveStaticFiles_total:
  assumes "Debug (config (mw s)) \<longrightarrow> Logger (config (mw s)) \<noteq> None"
  shows "\<exists>s'. serveStaticFiles h r s = Inr s'"
  using assms
  by (auto simp: serveStaticFiles_def andThen_def Printf_def Let_def
      split: sum.splits option.splits if_splits)

text \<open>Prefix stripping on a request whose path has the prefix: the handler is invoked on
  the stripped request unless the escaped path is set and lacks the prefix.\<close>

lemma stripped_empty: "stripped [] r = r"
  by (simp add: stripped_def)

lemma StripPrefix_matched:
  assumes "prefix pfx (Path r)"
  shows "StripPrefix pfx nf k r s
         = (if RawPath r = [] \<or> prefix pfx (RawPath r) then k (stripped pfx r) s else nf s)"
proof (cases "pfx = []")
  case True
  then show ?thesis by (simp add: StripPrefix_def stripped_empty)
next
  case False
  from assms have p: "TrimPrefix (Path r) pfx = drop (length pfx) (Path r)"
    by (rule TrimPrefix_drop)
  from assms False have lp: "length (drop (length pfx) (Path r)) < length (Path r)"
    by (auto simp: prefix_def)
  show ?thesis
  proof (cases "RawPath r = []")
    case True
    with False have "TrimPrefix (RawPath r) pfx = drop (length pfx) (RawPath r)"
      by (simp add: TrimPrefix_def)
    with True False p lp show ?thesis
      by (simp add: StripPrefix_def stripped_def Let_def)
  next
    case raw: False
    show ?thesis
    proof (cases "prefix pfx (RawPath r)")
      case True
      then have rp: "TrimPrefix (RawPath r) pfx = drop (length pfx) (RawPath r)"
        by (rule TrimPrefix_drop)
      from True False have "length (drop (length pfx) (RawPath r)) < length (RawPath r)"
        by (auto simp: prefix_def)
      with True False p lp rp show ?thesis
        by (simp add: StripPrefix_def stripped_def Let_def)
    next
      case nope: False
      then have "TrimPrefix (RawPath r) pfx = RawPath r"
        by (simp add: TrimPrefix_def HasPrefix_iff_prefix)
      with nope raw False show ?thesis
        by (simp add: StripPrefix_def Let_def)
    qed
  qed
qed

text \<open>The handler of a constructed middleware in closed form, for a path that has the
  prefix: when rooting succeeds and when it fails.\<close>

lemma New_config_fields:
  "StaticFS (config (NewStaticMiddleware cfg)) = StaticFS cfg"
  "StaticRoot (config (NewStaticMiddleware cfg)) = StaticRoot cfg"
  "StaticFilePrefix (config (NewStaticMiddleware cfg)) = StaticFilePrefix cfg"
  "CacheDuration (config (NewStaticMiddleware cfg)) = CacheDuration cfg"
  "Debug (config (NewStaticMiddleware cfg)) = Debug cfg"
  by (simp_all add: NewStaticMiddleware_def)

lemma withCacheControl_New:
  "withCacheControl (config (NewStaticMiddleware cfg)) w = withCacheControl cfg w"
  by (simp add: withCacheControl_def New_config_fields)

lemma Handler_matched:
  assumes m: "mw s = NewStaticMiddleware cfg"
    and p: "prefix (StaticFilePrefix cfg) (Path r)"
  shows "Handler h nxt r s
         = serveStaticFiles h r
             (s\<lparr>logged := logged s
                   @ logLines (config (mw s)) (''Serving static file: '' @ Path r)\<rparr>)"
proof -
  let ?c = "config (mw s)"
  have inv: "Debug ?c \<longrightarrow> Logger ?c \<noteq> None"
    using m New_logger_present by metis
  have pc: "StaticFilePrefix ?c = StaticFilePrefix cfg"
    using m by (simp add: New_config_fields)
  show ?thesis
    using p pc debug_Printf [OF inv, of "''Serving static file: '' @ Path r" s]
    by (simp add: Handler_def HasPrefix_iff_prefix andThen_def)
qed

lemma Handler_rooted:
  assumes m: "mw s = NewStaticMiddleware cfg"
    and p: "prefix (StaticFilePrefix cfg) (Path r)"
    and sub: "fsSub h (StaticFS cfg) (StaticRoot cfg) = Inr staticFS"
  shows "Handler h nxt r s
         = Inr (let s1 = s\<lparr>logged := logged s
                             @ logLines (config (mw s)) (''Serving static file: '' @ Path r),
                           rw := withCacheControl cfg (rw s)\<rparr>
                in if RawPath r = [] \<or> prefix (StaticFilePrefix cfg) (RawPath r)
                   then fileServerServeHTTP h staticFS (stripped (StaticFilePrefix cfg) r) s1
                   else replyNotFound s1)"
proof -
  let ?c = "config (mw s)"
  let ?s0 = "s\<lparr>logged := logged s @ logLines ?c (''Serving static file: '' @ Path r)\<rparr>"
  have c: "StaticFS ?c = StaticFS cfg" "StaticRoot ?c = StaticRoot cfg"
    "StaticFilePrefix ?c = StaticFilePrefix cfg" "CacheDuration ?c = CacheDuration cfg"
    using m by (simp_all add: New_config_fields)
  have "serveStaticFiles h r ?s0
        = Inr (StripPrefix (StaticFilePrefix cfg) replyNotFound
                 (fileServerServeHTTP h staticFS) r
                 (?s0\<lparr>rw := withCacheControl cfg (rw s)\<rparr>))"
    using sub c by (simp add: serveStaticFiles_def withCacheControl_def Let_def)
  then show ?thesis
    using p Handler_matched [OF m p, of h nxt] by (simp add: StripPrefix_matched Let_def)
qed

lemma Handler_rooting_failed:
  assumes m: "mw s = NewStaticMiddleware cfg"
    and p: "prefix (StaticFilePrefix cfg) (Path r)"
    and sub: "fsSub h (StaticFS cfg) (StaticRoot cfg) = Inl err"
  shows "Handler h nxt r s
         = Inr (s\<lparr>logged := logged s
                     @ logLines (config (mw s)) (''Serving static file: '' @ Path r)
                     @ logLines (config (mw s)) (''Error creating sub-filesystem: '' @ err),
                   rw := httpError (rw s) err StatusInternalServerError\<rparr>)"
proof -
  let ?c = "config (mw s)"
  let ?s0 = "s\<lparr>logged := logged s @ logLines ?c (''Serving static file: '' @ Path r)\<rparr>"
  have inv: "Debug ?c \<longrightarrow> Logger ?c \<noteq> None"
    using m New_logger_present by metis
  have c: "StaticFS ?c = StaticFS cfg" "StaticRoot ?c = StaticRoot cfg"
    using m by (simp_all add: New_config_fields)
  have "serveStaticFiles h r ?s0
        = Inr (?s0\<lparr>logged := logged ?s0
                       @ logLines ?c (''Error creating sub-filesystem: '' @ err),
                     rw := httpError (rw s) err StatusInternalServerError\<rparr>)"
    using sub c
    by (simp add: serveStaticFiles_def andThen_def Let_def debug_Printf [OF inv])
  then show ?thesis
    using Handler_matched [OF m p, of h nxt] by simp
qed

subsection \<open>The middleware instance is never written\<close>

lemma serveStaticFiles_mw: "serveStaticFiles h r s = Inr s' \<Longrightarrow> mw s' = mw s"
  by (auto simp: serveStaticFiles_def andThen_def Printf_def StripPrefix_def Let_def
        fileServerServeHTTP_def replyNotFound_def
      split: sum.splits option.splits if_splits)

lemma Handler_mw: "Handler h nxt r s = Inr s' \<Longrightarrow> mw s' = mw s"
  by (auto simp: Handler_def andThen_def Printf_def nextServeHTTP_def Let_def
      dest!: serveStaticFiles_mw
      split: sum.splits option.splits if_splits)

lemma handleAll_mw: "handleAll h nxt rs s = Inr s' \<Longrightarrow> mw s' = mw s"
proof (induction rs arbitrary: s)
  case Nil
  then show ?case by simp
next
  case (Cons r rs)
  from Cons.prems obtain t where t: "Handler h nxt r (s\<lparr>rw := newResponse\<rparr>) = Inr t"
    and rest: "handleAll h nxt rs t = Inr s'"
    by (auto simp: andThen_def split: sum.splits)
  from Handler_mw [OF t] have "mw t = mw s" by simp
  with Cons.IH [OF rest] show ?case by simp
qed

lemma cachedServeStaticFiles_mw: "cachedServeStaticFiles h r s = Inr s' \<Longrightarrow> mw s' = mw s"
  by (auto simp: cachedServeStaticFiles_def andThen_def Printf_def StripPrefix_def Let_def
        fileServerServeHTTP_def replyNotFound_def
      split: sum.splits option.splits if_splits)

lemma CachedHandler_mw: "CachedHandler h nxt r s = Inr s' \<Longrightarrow> mw s' = mw s"
  by (auto simp: CachedHandler_def andThen_def Printf_def nextServeHTTP_def Let_def
      dest!: cachedServeStaticFiles_mw
      split: sum.splits option.splits if_splits)

subsection \<open>Handling a request does not read the history\<close>

lemma history_sel [simp]:
  "mw (history l n f s) = mw s" "rw (history l n f s) = rw s"
  "logged (history l n f s) = l @ logged s"
  "nextCalls (history l n f s) = n @ nextCalls s"
  "fileCalls (history l n f s) = f @ fileCalls s"
  by (simp_all add: history_def)

lemma Printf_frame:
  "Printf lg line (history l n f s) = map_sum id (history l n f) (Printf lg line s)"
  by (simp add: Printf_def history_def split: option.splits)

lemma debug_frame:
  "(if b then Printf lg line (history l n f s) else Inr (history l n f s))
   = map_sum id (history l n f) (if b then Printf lg line s else Inr s)"
  by (simp add: Printf_frame)

lemma StripPrefix_frame:
  assumes "\<And>r s. k r (history l n f s) = history l n f (k r s)"
    and "\<And>s. nf (history l n f s) = history l n f (nf s)"
  shows "StripPrefix pfx nf k r (history l n f s) = history l n f (StripPrefix pfx nf k r s)"
  by (auto simp: StripPrefix_def Let_def assms)

lemma fileServerServeHTTP_frame:
  "fileServerServeHTTP h fsys r (history l n f s) = history l n f (fileServerServeHTTP h fsys r s)"
  by (simp add: fileServerServeHTTP_def history_def)

lemma replyNotFound_frame:
  "replyNotFound (history l n f s) = history l n f (replyNotFound s)"
  by (simp add: replyNotFound_def history_def)

lemma nextServeHTTP_frame:
  "nextServeHTTP nxt r (history l n f s) = history l n f (nextServeHTTP nxt r s)"
  by (simp add: nextServeHTTP_def history_def)

lemma history_rw_update:
  "(history l n f s)\<lparr>rw := w\<rparr> = history l n f (s\<lparr>rw := w\<rparr>)"
  by (simp add: history_def)

lemma andThen_frame:
  assumes "\<And>a. g (history l n f a) = map_sum id (history l n f) (g a)"
  shows "andThen (map_sum id (history l n f) x) g = map_sum id (history l n f) (andThen x g)"
  using assms by (cases x) (simp_all add: andThen_def)

lemma serveStaticFiles_frame:
  "serveStaticFiles h r (history l n f s) = map_sum id (history l n f) (serveStaticFiles h r s)"
proof (cases "fsSub h (StaticFS (config (mw s))) (StaticRoot (config (mw s)))")
  case (Inl err)
  have "andThen (map_sum id (history l n f)
                   (if Debug (config (mw s))
                    then Printf (Logger (config (mw s))) (''Error creating sub-filesystem: '' @ err) s
                    else Inr s))
          (\<lambda>s1. Inr (s1\<lparr>rw := httpError (rw s1) err StatusInternalServerError\<rparr>))
        = map_sum id (history l n f)
            (andThen (if Debug (config (mw s))
                      then Printf (Logger (config (mw s))) (''Error creating sub-filesystem: '' @ err) s
                      else Inr s)
               (\<lambda>s1. Inr (s1\<lparr>rw := httpError (rw s1) err StatusInternalServerError\<rparr>)))"
    by (rule andThen_frame) (simp add: history_rw_update)
  with Inl show ?thesis
    by (simp add: serveStaticFiles_def Let_def debug_frame)
next
  case (Inr staticFS)
  then show ?thesis
    by (simp add: serveStaticFiles_def Let_def history_rw_update StripPrefix_frame
          fileServerServeHTTP_frame replyNotFound_frame)
qed

lemma Handler_frame:
  "Handler h nxt r (history l n f s) = map_sum id (history l n f) (Handler h nxt r s)"
proof -
  have a: "andThen (map_sum id (history l n f) x) (serveStaticFiles h r)
           = map_sum id (history l n f) (andThen x (serveStaticFiles h r))" for x
    by (rule andThen_frame) (rule serveStaticFiles_frame)
  have b: "andThen (map_sum id (history l n f) x) (\<lambda>s1. Inr (nextServeHTTP nxt r s1))
           = map_sum id (history l n f) (andThen x (\<lambda>s1. Inr (nextServeHTTP nxt r s1)))" for x
    by (rule andThen_frame) (simp add: nextServeHTTP_frame)
  show ?thesis
    by (simp add: Handler_def Let_def debug_frame a b)
qed

lemma world_as_history:
  "s = history (logged s) (nextCalls s) (fileCalls s)
         (s\<lparr>logged := [], nextCalls := [], fileCalls := []\<rparr>)"
  by (simp add: history_def)

lemma effect_history:
  "effect (history l n f a) (history l n f b) = effect a b"
  by (simp add: effect_def)

lemma Handler_effect:
  fixes s1 s2 :: "('fs StaticMiddleware, 'fs) world"
  assumes "mw s1 = mw s2" and "rw s1 = rw s2"
  shows "map_sum id (effect s1) (Handler h nxt r s1) = map_sum id (effect s2) (Handler h nxt r s2)"
proof -
  let ?b1 = "s1\<lparr>logged := [], nextCalls := [], fileCalls := []\<rparr>"
  let ?b2 = "s2\<lparr>logged := [], nextCalls := [], fileCalls := []\<rparr>"
  have b: "?b1 = ?b2" using assms by simp
  have e: "map_sum id (effect (history l n f a)) (Handler h nxt r (history l n f a))
           = map_sum id (effect a) (Handler h nxt r a)"
    for l n f and a :: "('fs StaticMiddleware, 'fs) world"
    by (cases "Handler h nxt r a") (simp_all add: Handler_frame effect_history)
  have "map_sum id (effect s1) (Handler h nxt r s1) = map_sum id (effect ?b1) (Handler h nxt r ?b1)"
    using e [of "logged s1" "nextCalls s1" "fileCalls s1" ?b1] world_as_history [of s1] by simp
  moreover have "map_sum id (effect s2) (Handler h nxt r s2) = map_sum id (effect ?b2) (Handler h nxt r ?b2)"
    using e [of "logged s2" "nextCalls s2" "fileCalls s2" ?b2] world_as_history [of s2] by simp
  ultimately show ?thesis using b by simp
qed

subsection \<open>static.go and the rooting-once variant move in step\<close>

lemma observable_eq:
  "observable s = observable t \<longleftrightarrow>
     rw s = rw t \<and> logged s = logged t \<and> nextCalls s = nextCalls t \<and> fileCalls s = fileCalls t"
  by (auto simp: observable_def)

lemma Printf_agree:
  assumes "agree h s t"
  shows "rel_sum (=) (agree h) (if b then Printf lg line s else Inr s)
           (if b then Printf lg line t else Inr t)"
  using assms by (cases lg) (simp_all add: Printf_def agree_def observable_eq)

lemma andThen_agree:
  assumes "rel_sum (=) (agree h) x y"
    and "\<And>a b. agree h a b \<Longrightarrow> rel_sum (=) (agree h) (g a) (g' b)"
  shows "rel_sum (=) (agree h) (andThen x g) (andThen y g')"
  using assms by (cases x; cases y) (simp_all add: andThen_def)

lemma StripPrefix_agree:
  assumes "agree h s t"
    and "\<And>r a b. agree h a b \<Longrightarrow> agree h (k r a) (k' r b)"
    and "\<And>a b. agree h a b \<Longrightarrow> agree h (nf a) (nf' b)"
  shows "agree h (StripPrefix pfx nf k r s) (StripPrefix pfx nf' k' r t)"
  by (auto simp: StripPrefix_def Let_def assms)

lemma rw_update_agree:
  "agree h s t \<Longrightarrow> agree h (s\<lparr>rw := f (rw s)\<rparr>) (t\<lparr>rw := f (rw t)\<rparr>)"
  by (simp add: agree_def observable_eq)

lemma fileServerServeHTTP_agree:
  "agree h a b \<Longrightarrow> agree h (fileServerServeHTTP h fsys r a) (fileServerServeHTTP h fsys r b)"
  by (simp add: agree_def observable_eq fileServerServeHTTP_def)

lemma replyNotFound_agree:
  "agree h a b \<Longrightarrow> agree h (replyNotFound a) (replyNotFound b)"
  by (simp add: agree_def observable_eq replyNotFound_def)

lemma nextServeHTTP_agree:
  "agree h a b \<Longrightarrow> agree h (nextServeHTTP nxt r a) (nextServeHTTP nxt r b)"
  by (simp add: agree_def observable_eq nextServeHTTP_def)

lemma serveStaticFiles_agree:
  assumes ag: "agree h s t"
  shows "rel_sum (=) (agree h) (serveStaticFiles h r s) (cachedServeStaticFiles h r t)"
proof -
  let ?c = "config (mw s)"
  from ag have c: "cachedConfig (mw t) = ?c"
    and ro: "rooted (mw t) = fsSub h (StaticFS ?c) (StaticRoot ?c)"
    by (simp_all add: agree_def)
  show ?thesis
  proof (cases "fsSub h (StaticFS ?c) (StaticRoot ?c)")
    case (Inl err)
    have "rel_sum (=) (agree h)
            (andThen (if Debug ?c
                      then Printf (Logger ?c) (''Error creating sub-filesystem: '' @ err) s
                      else Inr s)
               (\<lambda>s1. Inr (s1\<lparr>rw := httpError (rw s1) err StatusInternalServerError\<rparr>)))
            (andThen (if Debug ?c
                      then Printf (Logger ?c) (''Error creating sub-filesystem: '' @ err) t
                      else Inr t)
               (\<lambda>s1. Inr (s1\<lparr>rw := httpError (rw s1) err StatusInternalServerError\<rparr>)))"
      by (rule andThen_agree [OF Printf_agree [OF ag]]) (simp add: agree_def observable_eq)
    with Inl c ro show ?thesis
      by (simp add: serveStaticFiles_def cachedServeStaticFiles_def Let_def)
  next
    case (Inr staticFS)
    let ?set = "HeaderSet ''Cache-Control'' (cacheControlValue (CacheDuration ?c))"
    let ?s1 = "if 0 < CacheDuration ?c then s\<lparr>rw := ?set (rw s)\<rparr> else s"
    let ?t1 = "if 0 < CacheDuration ?c then t\<lparr>rw := ?set (rw t)\<rparr> else t"
    have "agree h ?s1 ?t1"
      using ag rw_update_agree [OF ag, of ?set] by simp
    then have "agree h
                 (StripPrefix (StaticFilePrefix ?c) replyNotFound
                    (fileServerServeHTTP h staticFS) r ?s1)
                 (StripPrefix (StaticFilePrefix ?c) replyNotFound
                    (fileServerServeHTTP h staticFS) r ?t1)"
      by (rule StripPrefix_agree) (simp_all add: fileServerServeHTTP_agree replyNotFound_agree)
    with Inr c ro show ?thesis
      by (simp add: serveStaticFiles_def cachedServeStaticFiles_def Let_def)
  qed
qed

lemma Handler_agree:
  assumes ag: "agree h s t"
  shows "rel_sum (=) (agree h) (Handler h nxt r s) (CachedHandler h nxt r t)"
proof -
  let ?c = "config (mw s)"
  from ag have c: "cachedConfig (mw t) = ?c"
    by (simp add: agree_def)
  show ?thesis
  proof (cases "HasPrefix (Path r) (StaticFilePrefix ?c)")
    case True
    have "rel_sum (=) (agree h)
            (andThen (if Debug ?c
                      then Printf (Logger ?c) (''Serving static file: '' @ Path r) s
                      else Inr s)
               (serveStaticFiles h r))
            (andThen (if Debug ?c
                      then Printf (Logger ?c) (''Serving static file: '' @ Path r) t
                      else Inr t)
               (cachedServeStaticFiles h r))"
      by (rule andThen_agree [OF Printf_agree [OF ag]]) (rule serveStaticFiles_agree)
    with True c show ?thesis
      by (simp add: Handler_def CachedHandler_def Let_def)
  next
    case False
    have "rel_sum (=) (agree h)
            (andThen (if Debug ?c
                      then Printf (Logger ?c) (''Passing request to next handler: '' @ Path r) s
                      else Inr s)
               (\<lambda>s1. Inr (nextServeHTTP nxt r s1)))
            (andThen (if Debug ?c
                      then Printf (Logger ?c) (''Passing request to next handler: '' @ Path r) t
                      else Inr t)
               (\<lambda>s1. Inr (nextServeHTTP nxt r s1)))"
      by (rule andThen_agree [OF Printf_agree [OF ag]]) (simp add: nextServeHTTP_agree)
    with False c show ?thesis
      by (simp add: Handler_def CachedHandler_def Let_def)
  qed
qed

lemma New_agree:
  assumes "mw s = NewStaticMiddleware cfg" and "mw t = NewCachedMiddleware h cfg"
    and "observable s = observable t"
  shows "agree h s t"
  using assms by (simp add: agree_def NewCachedMiddleware_def NewStaticMiddleware_def Let_def)

subsection \<open>Error replies and the example host\<close>

lemma httpError_status: "status w = None \<Longrightarrow> status (httpError w msg code) = Some code"
  by (simp add: httpError_def Write_def WriteHeader_def HeaderSet_def HeaderDel_def Let_def)

lemma httpError_body: "body (httpError w msg code) = body w @ msg @ [CHR 0x0A]"
  by (simp add: httpError_def Write_def WriteHeader_def HeaderSet_def HeaderDel_def Let_def)

lemma httpError_header:
  "header (httpError w msg code)
   = (header w)(''Content-Length'' := None, ''Content-Type'' \<mapsto> [''text/plain; charset=utf-8''],
        ''X-Content-Type-Options'' \<mapsto> [''nosniff''])"
  by (simp add: httpError_def Write_def WriteHeader_def HeaderSet_def HeaderDel_def Let_def)

lemma mapSub_static: "mapSub mockFS ''static'' = Inr [(''testfile.css'', ''body {}'')]"
  by (simp add: mapSub_def ValidPath_def validElements.simps mockFS_def HasPrefix_def)

lemma mapSub_dot_static: "mapSub mockFS ''./static'' = Inl ''sub ./static: invalid argument''"
  by (simp add: mapSub_def ValidPath_def validElements.simps)

text \<open>The empty string is not a valid path either (the root of a store is \<^verbatim>\<open>"."\<close>):
  rooting at \<^verbatim>\<open>""\<close> fails.\<close>

lemma mapSub_empty_root: "mapSub fsys [] = Inl ''sub : invalid argument''"
  by (simp add: mapSub_def ValidPath_def validElements.simps)

lemma testWorld_sel:
  "mw (testWorld dir d dbg) = NewStaticMiddleware (testConfig dir d dbg)"
  "rw (testWorld dir d dbg) = newResponse"
  "logged (testWorld dir d dbg) = []"
  "nextCalls (testWorld dir d dbg) = []"
  "fileCalls (testWorld dir d dbg) = []"
  by (simp_all add: testWorld_def start_def)

lemma testConfig_sel:
  "StaticFS (testConfig dir d dbg) = mockFS"
  "StaticRoot (testConfig dir d dbg) = dir"
  "StaticFilePrefix (testConfig dir d dbg) = ''/static''"
  "CacheDuration (testConfig dir d dbg) = d"
  "Debug (testConfig dir d dbg) = dbg"
  "Logger (testConfig dir d dbg) = None"
  by (simp_all add: testConfig_def)

lemma stubHost_sel:
  "fsSub (stubHost keep) = mapSub" "fileServer (stubHost keep) = stubFileServer keep"
  by (simp_all add: stubHost_def)

lemma NotFound_status: "status w = None \<Longrightarrow> status (NotFound w) = Some StatusNotFound"
  by (simp add: NotFound_def httpError_status)

lemma withCacheControl_status: "status (withCacheControl c w) = status w"
  by (simp add: withCacheControl_def HeaderSet_def)

lemma Handler_rooted_sel:
  assumes m: "mw s = NewStaticMiddleware cfg"
    and p: "prefix (StaticFilePrefix cfg) (Path r)"
    and sub: "fsSub h (StaticFS cfg) (StaticRoot cfg) = Inr staticFS"
  shows "\<exists>s'. Handler h nxt r s = Inr s'
           \<and> mw s' = mw s \<and> nextCalls s' = nextCalls s
           \<and> rw s' = (if RawPath r = [] \<or> prefix (StaticFilePrefix cfg) (RawPath r)
                      then fileServer h staticFS (stripped (StaticFilePrefix cfg) r)
                             (withCacheControl cfg (rw s))
                      else NotFound (withCacheControl cfg (rw s)))
           \<and> fileCalls s' = (if RawPath r = [] \<or> prefix (StaticFilePrefix cfg) (RawPath r)
                             then fileCalls s @ [(staticFS, stripped (StaticFilePrefix cfg) r)]
                             else fileCalls s)"
  using Handler_rooted [OF m p sub, of nxt]
  by (simp add: Let_def fileServerServeHTTP_def replyNotFound_def)

lemma cacheControlValue_year: "cacheControlValue 31536000000000000 = ''public, max-age=31536000''"
  by code_simp

lemma cacheControlValue_late: "cacheControlValue 16777216999999999 = ''public, max-age=16777217''"
  by code_simp

lemma GET_sel:
  "Method (GET p) = ''GET''" "Path (GET p) = p" "RawPath (GET p) = []" "RawQuery (GET p) = []"
  by (simp_all add: GET_def)

lemma stripped_GET:
  "stripped ''/static'' (GET ''/static/testfile.css'') = GET ''/testfile.css''"
  "stripped ''/static'' (GET ''/static/testfile.txt'') = GET ''/testfile.txt''"
  by (simp_all add: stripped_def GET_def)

lemma stub_found:
  "stubFileServer keep [(''testfile.css'', ''body {}'')] (GET ''/testfile.css'') w = Write ''body {}'' w"
  by (simp add: stubFileServer_def GET_def HasPrefix_def)

lemma stub_missing:
  "stubFileServer keep [(''testfile.css'', ''body {}'')] (GET ''/testfile.txt'') w
   = httpError
       (if keep then w
        else HeaderDel ''Last-Modified'' (HeaderDel ''Etag''
               (HeaderDel ''Content-Encoding'' (HeaderDel ''Cache-Control'' w))))
       ''404 page not found'' StatusNotFound"
  by (simp add: stubFileServer_def GET_def HasPrefix_def)

lemma test_matched:
  "prefix (StaticFilePrefix (testConfig dir d dbg)) (Path (GET ''/static/testfile.css''))"
  "prefix (StaticFilePrefix (testConfig dir d dbg)) (Path (GET ''/static/testfile.txt''))"
  by (simp_all add: testConfig_sel GET_def)

lemma test_rooted:
  "fsSub (stubHost keep) (StaticFS (testConfig ''static'' d dbg))
     (StaticRoot (testConfig ''static'' d dbg)) = Inr [(''testfile.css'', ''body {}'')]"
  by (simp add: testConfig_sel stubHost_sel mapSub_static)

lemma test_not_rooted:
  "fsSub (stubHost keep) (StaticFS (testConfig ''./static'' d dbg))
     (StaticRoot (testConfig ''./static'' d dbg)) = Inl ''sub ./static: invalid argument''"
  by (simp add: testConfig_sel stubHost_sel mapSub_dot_static)

subsection \<open>The file server before a file is open\<close>



lemma localRedirect_status:
  "status w = None \<Longrightarrow> status (localRedirect w r p) = Some StatusMovedPermanently"
  by (simp add: localRedirect_def WriteHeader_def HeaderSet_def)















subsection \<open>A constructed middleware does not panic\<close>

lemma Handler_total:
  assumes "mw s = NewStaticMiddleware cfg"
  shows "\<exists>s'. Handler h nxt r s = Inr s'"
proof -
  let ?c = "config (mw s)"
  have inv: "Debug ?c \<longrightarrow> Logger ?c \<noteq> None"
    using assms New_logger_present by metis
  show ?thesis
  proof (cases "HasPrefix (Path r) (StaticFilePrefix ?c)")
    case True
    let ?a = "s\<lparr>logged := logged s @ logLines ?c (''Serving static file: '' @ Path r)\<rparr>"
    have "Debug (config (mw ?a)) \<longrightarrow> Logger (config (mw ?a)) \<noteq> None"
      using inv by simp
    then obtain t where "serveStaticFiles h r ?a = Inr t"
      using serveStaticFiles_total by blast
    with True show ?thesis
      by (simp add: Handler_def Let_def andThen_def debug_Printf [OF inv])
  next
    case False
    then show ?thesis
      by (simp add: Handler_def Let_def andThen_def debug_Printf [OF inv])
  qed
qed

lemma handleAll_total:
  assumes "mw s = NewStaticMiddleware cfg"
  shows "\<exists>s'. handleAll h nxt rs s = Inr s'"
  using assms
proof (induction rs arbitrary: s)
  case Nil
  then show ?case by simp
next
  case (Cons r rs)
  let ?b = "s\<lparr>rw := newResponse\<rparr>"
  have m: "mw ?b = NewStaticMiddleware cfg" using Cons.prems by simp
  then obtain t where t: "Handler h nxt r ?b = Inr t"
    using Handler_total by blast
  then have "mw t = NewStaticMiddleware cfg"
    using Handler_mw m by fastforce
  from Cons.IH [OF this] obtain s' where "handleAll h nxt rs t = Inr s'" by blast
  with t show ?case by (simp add: andThen_def)
qed

subsection \<open>An empty prefix over a sequence of requests\<close>

text \<open>With the empty prefix nothing is stripped: the file server receives the request
  as it came, whatever its escaped path, when rooting succeeds; the reply is the
  500 of \<^verbatim>\<open>http.Error\<close> when it fails. A sequence of requests, each on a fresh
  response writer, is served one by one.\<close>

lemma Handler_empty_prefix_rooted:
  assumes m: "mw s = NewStaticMiddleware cfg" and e: "StaticFilePrefix cfg = []"
    and sub: "fsSub h (StaticFS cfg) (StaticRoot cfg) = Inr staticFS"
  shows "\<exists>s'. Handler h nxt r s = Inr s' \<and> mw s' = mw s \<and> nextCalls s' = nextCalls s
           \<and> rw s' = fileServer h staticFS r (withCacheControl cfg (rw s))
           \<and> fileCalls s' = fileCalls s @ [(staticFS, r)]"
proof -
  have p: "prefix (StaticFilePrefix cfg) (Path r)" using e by simp
  from Handler_rooted_sel [OF m p sub, of nxt] show ?thesis
    by (simp add: e stripped_empty)
qed

lemma Handler_empty_prefix_failed:
  assumes m: "mw s = NewStaticMiddleware cfg" and e: "StaticFilePrefix cfg = []"
    and sub: "fsSub h (StaticFS cfg) (StaticRoot cfg) = Inl err"
  shows "\<exists>s'. Handler h nxt r s = Inr s' \<and> mw s' = mw s \<and> nextCalls s' = nextCalls s
           \<and> rw s' = httpError (rw s) err StatusInternalServerError
           \<and> fileCalls s' = fileCalls s"
proof -
  have p: "prefix (StaticFilePrefix cfg) (Path r)" using e by simp
  from Handler_rooting_failed [OF m p sub, of nxt] show ?thesis by simp
qed

lemma handleAll_empty_prefix_rooted:
  assumes "mw s = NewStaticMiddleware cfg" and e: "StaticFilePrefix cfg = []"
    and sub: "fsSub h (StaticFS cfg) (StaticRoot cfg) = Inr staticFS"
  shows "\<exists>s'. handleAll h nxt rs s = Inr s' \<and> nextCalls s' = nextCalls s
           \<and> fileCalls s' = fileCalls s @ map (Pair staticFS) rs
           \<and> (rs \<noteq> [] \<longrightarrow>
                 rw s' = fileServer h staticFS (last rs) (withCacheControl cfg newResponse))"
  using assms(1)
proof (induction rs arbitrary: s)
  case Nil
  then show ?case by simp
next
  case (Cons r rs)
  let ?b = "s\<lparr>rw := newResponse\<rparr>"
  have m: "mw ?b = NewStaticMiddleware cfg" using Cons.prems by simp
  from Handler_empty_prefix_rooted [OF m e sub, of nxt r] obtain t where
    t: "Handler h nxt r ?b = Inr t" "mw t = mw ?b" "nextCalls t = nextCalls s"
      "rw t = fileServer h staticFS r (withCacheControl cfg newResponse)"
      "fileCalls t = fileCalls s @ [(staticFS, r)]"
    by auto
  have "mw t = NewStaticMiddleware cfg" using t(2) m by simp
  from Cons.IH [OF this] obtain s' where
    s': "handleAll h nxt rs t = Inr s'" "nextCalls s' = nextCalls t"
      "fileCalls s' = fileCalls t @ map (Pair staticFS) rs"
      "rs \<noteq> [] \<longrightarrow> rw s' = fileServer h staticFS (last rs) (withCacheControl cfg newResponse)"
    by blast
  have "rs = [] \<Longrightarrow> s' = t" using s'(1) by simp
  with t s' show ?case by (auto simp: andThen_def)
qed

lemma handleAll_empty_prefix_failed:
  assumes "mw s = NewStaticMiddleware cfg" and e: "StaticFilePrefix cfg = []"
    and sub: "fsSub h (StaticFS cfg) (StaticRoot cfg) = Inl err"
  shows "\<exists>s'. handleAll h nxt rs s = Inr s' \<and> nextCalls s' = nextCalls s
           \<and> fileCalls s' = fileCalls s
           \<and> (rs \<noteq> [] \<longrightarrow> rw s' = httpError newResponse err StatusInternalServerError)"
  using assms(1)
proof (induction rs arbitrary: s)
  case Nil
  then show ?case by simp
next
  case (Cons r rs)
  let ?b = "s\<lparr>rw := newResponse\<rparr>"
  have m: "mw ?b = NewStaticMiddleware cfg" using Cons.prems by simp
  from Handler_empty_prefix_failed [OF m e sub, of nxt r] obtain t where
    t: "Handler h nxt r ?b = Inr t" "mw t = mw ?b" "nextCalls t = nextCalls s"
      "rw t = httpError newResponse err StatusInternalServerError"
      "fileCalls t = fileCalls s"
    by auto
  have "mw t = NewStaticMiddleware cfg" using t(2) m by simp
  from Cons.IH [OF this] obtain s' where
    s': "handleAll h nxt rs t = Inr s'" "nextCalls s' = nextCalls t"
      "fileCalls s' = fileCalls t"
      "rs \<noteq> [] \<longrightarrow> rw s' = httpError newResponse err StatusInternalServerError"
    by blast
  have "rs = [] \<Longrightarrow> s' = t" using s'(1) by simp
  with t s' show ?case by (auto simp: andThen_def)
qed

section \<open>Dispatch on the path prefix\<close>

text \<open>
  Claim C1. The handler tests the request path against the configured prefix, byte by
  byte (\<open>prefix\<close> on the two strings; no case folding, no pattern, no slash
  normalisation). If the path begins with the prefix, the handler does what
  \<open>serveStaticFiles\<close> does (after the optional debug line) and the next handler is not
  called. Otherwise the next handler is called exactly once, with the request as it
  came and the response writer as it came, and the response is what the next handler
  wrote: the middleware itself writes no header and no status.
\<close>

theorem handler_dispatch:
  assumes "mw s = NewStaticMiddleware cfg"
  shows "(prefix (StaticFilePrefix cfg) (Path r) \<longrightarrow>
            Handler h nxt r s
              = serveStaticFiles h r
                  (s\<lparr>logged := logged s
                        @ logLines (config (mw s)) (''Serving static file: '' @ Path r)\<rparr>)
            \<and> (\<exists>s'. Handler h nxt r s = Inr s' \<and> nextCalls s' = nextCalls s))
       \<and> (\<not> prefix (StaticFilePrefix cfg) (Path r) \<longrightarrow>
            Handler h nxt r s
              = Inr (s\<lparr>rw := nxt r (rw s), nextCalls := nextCalls s @ [r],
                      logged := logged s
                        @ logLines (config (mw s))
                            (''Passing request to next handler: '' @ Path r)\<rparr>))"
proof -
  let ?c = "config (mw s)"
  have pfx: "StaticFilePrefix ?c = StaticFilePrefix cfg"
    using assms by (simp add: NewStaticMiddleware_def)
  have inv: "Debug ?c \<longrightarrow> Logger ?c \<noteq> None"
    using assms New_logger_present by metis
  have yes: "Handler h nxt r s
              = serveStaticFiles h r
                  (s\<lparr>logged := logged s @ logLines ?c (''Serving static file: '' @ Path r)\<rparr>)"
    if "prefix (StaticFilePrefix cfg) (Path r)"
    using that pfx debug_Printf [OF inv, of "''Serving static file: '' @ Path r" s]
    by (simp add: Handler_def HasPrefix_iff_prefix andThen_def)
  have no: "Handler h nxt r s
              = Inr (s\<lparr>rw := nxt r (rw s), nextCalls := nextCalls s @ [r],
                      logged := logged s
                        @ logLines ?c (''Passing request to next handler: '' @ Path r)\<rparr>)"
    if "\<not> prefix (StaticFilePrefix cfg) (Path r)"
    using that pfx debug_Printf [OF inv, of "''Passing request to next handler: '' @ Path r" s]
    by (simp add: Handler_def HasPrefix_iff_prefix andThen_def nextServeHTTP_def)
  have never: "\<exists>s'. Handler h nxt r s = Inr s' \<and> nextCalls s' = nextCalls s"
    if m: "prefix (StaticFilePrefix cfg) (Path r)"
  proof -
    let ?s1 = "s\<lparr>logged := logged s @ logLines ?c (''Serving static file: '' @ Path r)\<rparr>"
    have "Debug (config (mw ?s1)) \<longrightarrow> Logger (config (mw ?s1)) \<noteq> None"
      using inv by simp
    then obtain s' where s': "serveStaticFiles h r ?s1 = Inr s'"
      using serveStaticFiles_total by blast
    then have "nextCalls s' = nextCalls ?s1"
      by (rule serveStaticFiles_nextCalls)
    with s' yes [OF m] show ?thesis by simp
  qed
  show ?thesis using yes no never by blast
qed

text \<open>The test's configuration with debugging on: \<^verbatim>\<open>GET /static/testfile.css\<close> is
  claimed and the next handler is not called; \<^verbatim>\<open>GET /nonexistent\<close> goes to the next
  handler, once, unchanged.\<close>

theorem handler_dispatch_witness:
  "(\<exists>s'. Handler (stubHost True) nextStub (GET ''/static/testfile.css'')
            (testWorld ''static'' 0 True) = Inr s' \<and> nextCalls s' = [])
   \<and> Handler (stubHost True) nextStub (GET ''/nonexistent'') (testWorld ''static'' 0 True)
       = Inr ((testWorld ''static'' 0 True)
                \<lparr>rw := nextStub (GET ''/nonexistent'') newResponse,
                 nextCalls := [GET ''/nonexistent''],
                 logged := [(defaultLogger, ''Passing request to next handler: /nonexistent'')]\<rparr>)"
proof -
  let ?s = "testWorld ''static'' 0 True" and ?cfg = "testConfig ''static'' 0 True"
  have w: "mw ?s = NewStaticMiddleware ?cfg"
    by (simp add: testWorld_def start_def)
  have m: "prefix (StaticFilePrefix ?cfg) (Path (GET ''/static/testfile.css''))"
    by (simp add: testConfig_def GET_def)
  have n: "\<not> prefix (StaticFilePrefix ?cfg) (Path (GET ''/nonexistent''))"
    by (simp add: testConfig_def GET_def)
  have a: "\<exists>s'. Handler (stubHost True) nextStub (GET ''/static/testfile.css'') ?s = Inr s'
             \<and> nextCalls s' = nextCalls ?s"
    using handler_dispatch [OF w, of "GET ''/static/testfile.css''" "stubHost True" nextStub] m
    by blast
  have b: "Handler (stubHost True) nextStub (GET ''/nonexistent'') ?s
           = Inr (?s\<lparr>rw := nextStub (GET ''/nonexistent'') (rw ?s),
                    nextCalls := nextCalls ?s @ [GET ''/nonexistent''],
                    logged := logged ?s
                      @ logLines (config (mw ?s))
                          (''Passing request to next handler: '' @ Path (GET ''/nonexistent''))\<rparr>)"
    using handler_dispatch [OF w, of "GET ''/nonexistent''" "stubHost True" nextStub] n
    by blast
  have "nextCalls ?s = []" "rw ?s = newResponse" "logged ?s = []"
    by (simp_all add: testWorld_def start_def)
  moreover have "logLines (config (mw ?s))
                   (''Passing request to next handler: '' @ Path (GET ''/nonexistent''))
                 = [(defaultLogger, ''Passing request to next handler: /nonexistent'')]"
    by (simp add: logLines_def example_defs)
  ultimately show ?thesis using a b by simp
qed

text \<open>
  Claim C10. With the empty string as prefix every path passes the prefix test, and the
  middleware claims every request: the handler does what \<open>serveStaticFiles\<close> does
  (after the optional debug line) and the next handler is not called. The request is
  served: when rooting succeeds the file server is called once, with the request as it
  came (nothing is stripped), and the response is the file server's; when rooting
  fails the response is the 500 reply and the file server is not called. The same
  holds along any sequence of requests, each handled on a fresh response writer: the
  next handler is never called, and when rooting succeeds the file server receives
  every request of the sequence, in order.
\<close>

theorem empty_prefix_claims_all:
  assumes m: "mw s = NewStaticMiddleware cfg" and e: "StaticFilePrefix cfg = []"
  shows "HasPrefix (Path r) (StaticFilePrefix cfg)
       \<and> Handler h nxt r s
           = serveStaticFiles h r
               (s\<lparr>logged := logged s
                     @ logLines (config (mw s)) (''Serving static file: '' @ Path r)\<rparr>)
       \<and> (\<exists>s'. Handler h nxt r s = Inr s' \<and> nextCalls s' = nextCalls s
              \<and> (case fsSub h (StaticFS cfg) (StaticRoot cfg) of
                    Inl err \<Rightarrow>
                      rw s' = httpError (rw s) err StatusInternalServerError
                      \<and> fileCalls s' = fileCalls s
                  | Inr staticFS \<Rightarrow>
                      rw s' = fileServer h staticFS r (withCacheControl cfg (rw s))
                      \<and> fileCalls s' = fileCalls s @ [(staticFS, r)]))
       \<and> (\<exists>s'. handleAll h nxt rs s = Inr s' \<and> nextCalls s' = nextCalls s
              \<and> (case fsSub h (StaticFS cfg) (StaticRoot cfg) of
                    Inl err \<Rightarrow>
                      fileCalls s' = fileCalls s
                      \<and> (rs \<noteq> [] \<longrightarrow>
                            rw s' = httpError newResponse err StatusInternalServerError)
                  | Inr staticFS \<Rightarrow>
                      fileCalls s' = fileCalls s @ map (Pair staticFS) rs
                      \<and> (rs \<noteq> [] \<longrightarrow>
                            rw s' = fileServer h staticFS (last rs)
                                      (withCacheControl cfg newResponse))))"
proof -
  have p: "prefix (StaticFilePrefix cfg) (Path r)" using e by simp
  have a: "HasPrefix (Path r) (StaticFilePrefix cfg)"
    using e by (simp add: HasPrefix_empty)
  note b = Handler_matched [OF m p, of h nxt]
  show ?thesis
  proof (cases "fsSub h (StaticFS cfg) (StaticRoot cfg)")
    case (Inl err)
    from Handler_empty_prefix_failed [OF m e Inl, of nxt r]
      handleAll_empty_prefix_failed [OF m e Inl, of nxt rs] a b Inl
    show ?thesis by auto
  next
    case (Inr staticFS)
    from Handler_empty_prefix_rooted [OF m e Inr, of nxt r]
      handleAll_empty_prefix_rooted [OF m e Inr, of nxt rs] a b Inr
    show ?thesis by auto
  qed
qed


text \<open>The test's configuration with the prefix emptied: \<^verbatim>\<open>GET /anything\<close> is claimed
  and reaches the file server, and so does every request of a sequence; the next
  handler is not called. (Nothing is stripped, so neither path names a file of the
  view rooted at \<^verbatim>\<open>static\<close>: both are answered 404.)\<close>

theorem empty_prefix_claims_all_witness:
  "HasPrefix (Path (GET ''/anything'')) []
   \<and> (\<exists>s'. Handler (stubHost True) nextStub (GET ''/anything'')
              (start (NewStaticMiddleware ((testConfig ''static'' 0 False)\<lparr>StaticFilePrefix := []\<rparr>)))
            = Inr s'
          \<and> nextCalls s' = []
          \<and> fileCalls s' = [([(''testfile.css'', ''body {}'')], GET ''/anything'')]
          \<and> status (rw s') = Some 404)
   \<and> (\<exists>s'. handleAll (stubHost True) nextStub [GET ''/anything'', GET ''/static/testfile.css'']
              (start (NewStaticMiddleware ((testConfig ''static'' 0 False)\<lparr>StaticFilePrefix := []\<rparr>)))
            = Inr s'
          \<and> nextCalls s' = []
          \<and> fileCalls s' = [([(''testfile.css'', ''body {}'')], GET ''/anything''),
                            ([(''testfile.css'', ''body {}'')], GET ''/static/testfile.css'')]
          \<and> status (rw s') = Some 404)"
proof -
  let ?cfg = "(testConfig ''static'' 0 False)\<lparr>StaticFilePrefix := []\<rparr>"
  let ?s = "start (NewStaticMiddleware ?cfg) :: (MapFS StaticMiddleware, MapFS) world"
  let ?v = "[(''testfile.css'', ''body {}'')]"
  have m: "mw ?s = NewStaticMiddleware ?cfg" and e: "StaticFilePrefix ?cfg = []"
    by (simp_all add: start_def)
  have sel: "nextCalls ?s = []" "fileCalls ?s = []" "rw ?s = newResponse"
    by (simp_all add: start_def)
  have sub: "fsSub (stubHost True) (StaticFS ?cfg) (StaticRoot ?cfg) = Inr ?v"
    by (simp add: testConfig_sel stubHost_sel mapSub_static)
  have w: "withCacheControl ?cfg newResponse = newResponse"
    by (simp add: withCacheControl_def testConfig_sel)
  have f: "status (stubFileServer True ?v (GET ''/anything'') newResponse) = Some 404"
    "status (stubFileServer True ?v (GET ''/static/testfile.css'') newResponse) = Some 404"
    by (simp_all add: stubFileServer_def GET_def HasPrefix_def httpError_status newResponse_def
        StatusNotFound_def)
  note all = empty_prefix_claims_all [OF m e, where h = "stubHost True" and nxt = nextStub
      and r = "GET ''/anything''" and rs = "[GET ''/anything'', GET ''/static/testfile.css'']"]
  from all have a: "HasPrefix (Path (GET ''/anything'')) []"
    unfolding e by (rule conjunct1)
  from all [THEN conjunct2, THEN conjunct2, THEN conjunct1]
  have b: "\<exists>s'. Handler (stubHost True) nextStub (GET ''/anything'') ?s = Inr s'
             \<and> nextCalls s' = []
             \<and> fileCalls s' = [(?v, GET ''/anything'')]
             \<and> status (rw s') = Some 404"
    unfolding sub sel w by (auto simp: stubHost_sel f)
  from all [THEN conjunct2, THEN conjunct2, THEN conjunct2]
  have c: "\<exists>s'. handleAll (stubHost True) nextStub
                  [GET ''/anything'', GET ''/static/testfile.css''] ?s = Inr s'
             \<and> nextCalls s' = []
             \<and> fileCalls s' = [(?v, GET ''/anything''), (?v, GET ''/static/testfile.css'')]
             \<and> status (rw s') = Some 404"
    unfolding sub sel w by (auto simp: stubHost_sel f)
  from a b c show ?thesis by blast
qed

section \<open>Construction\<close>

text \<open>
  Claim C6. Constructed from a configuration with debugging on and no logger, the
  middleware stores that configuration with the default logger, the standard library's
  logger on standard output with prefix \<^verbatim>\<open>DEBUG: \<close>; from any other configuration it
  stores the configuration as passed. In every case all fields but the logger are as
  passed.
\<close>

theorem constructor_logger_default:
  "(Debug cfg \<and> Logger cfg = None \<longrightarrow>
      config (NewStaticMiddleware cfg) = cfg\<lparr>Logger := Some (LogNew Stdout ''DEBUG: '' LstdFlags)\<rparr>)
   \<and> (\<not> (Debug cfg \<and> Logger cfg = None) \<longrightarrow> config (NewStaticMiddleware cfg) = cfg)
   \<and> StaticFS (config (NewStaticMiddleware cfg)) = StaticFS cfg
   \<and> StaticRoot (config (NewStaticMiddleware cfg)) = StaticRoot cfg
   \<and> StaticFilePrefix (config (NewStaticMiddleware cfg)) = StaticFilePrefix cfg
   \<and> CacheDuration (config (NewStaticMiddleware cfg)) = CacheDuration cfg
   \<and> Debug (config (NewStaticMiddleware cfg)) = Debug cfg"
  by (simp add: NewStaticMiddleware_def defaultLogger_def)


text \<open>The test's configuration, with debugging on and with debugging off.\<close>

theorem constructor_logger_default_witness:
  "config (NewStaticMiddleware (testConfig ''static'' 0 True))
     = (testConfig ''static'' 0 True)\<lparr>Logger := Some (LogNew Stdout ''DEBUG: '' LstdFlags)\<rparr>
   \<and> config (NewStaticMiddleware (testConfig ''static'' 0 False)) = testConfig ''static'' 0 False"
  using constructor_logger_default [of "testConfig ''static'' 0 True"]
    constructor_logger_default [of "testConfig ''static'' 0 False"]
  by (simp add: testConfig_def)

section \<open>The configuration after construction\<close>

text \<open>
  Claim C7. Handling requests never changes the middleware instance: after any
  sequence of requests the stored configuration is the one stored at construction.
  What handling a request does (the response, the new log lines, the call to the next
  handler or to the file server) is then the same as it would have been before those
  requests: it depends on the stored configuration, the request and the response
  writer handed in, not on what was handled earlier.
\<close>

theorem configuration_unchanged:
  assumes "handleAll h nxt rs s = Inr s1"
  shows "mw s1 = mw s
       \<and> map_sum id (effect (s1\<lparr>rw := w\<rparr>)) (Handler h nxt r (s1\<lparr>rw := w\<rparr>))
         = map_sum id (effect (s\<lparr>rw := w\<rparr>)) (Handler h nxt r (s\<lparr>rw := w\<rparr>))
       \<and> (\<forall>s'. Handler h nxt r s1 = Inr s' \<longrightarrow> mw s' = mw s)"
proof -
  have m: "mw s1 = mw s" using assms by (rule handleAll_mw)
  then have "map_sum id (effect (s1\<lparr>rw := w\<rparr>)) (Handler h nxt r (s1\<lparr>rw := w\<rparr>))
         = map_sum id (effect (s\<lparr>rw := w\<rparr>)) (Handler h nxt r (s\<lparr>rw := w\<rparr>))"
    by (intro Handler_effect) simp_all
  moreover have "\<forall>s'. Handler h nxt r s1 = Inr s' \<longrightarrow> mw s' = mw s"
    using m Handler_mw by fastforce
  ultimately show ?thesis using m by blast
qed


text \<open>After a claimed request and a forwarded one, the configuration is as constructed
  and a further request has the effect it has on a fresh middleware.\<close>

theorem configuration_unchanged_witness:
  "\<exists>s1. handleAll (stubHost True) nextStub [GET ''/static/testfile.css'', GET ''/nonexistent'']
          (testWorld ''static'' 0 True) = Inr s1
     \<and> mw s1 = NewStaticMiddleware (testConfig ''static'' 0 True)
     \<and> map_sum id (effect (s1\<lparr>rw := newResponse\<rparr>))
          (Handler (stubHost True) nextStub (GET ''/static/testfile.css'') (s1\<lparr>rw := newResponse\<rparr>))
       = map_sum id (effect (testWorld ''static'' 0 True))
          (Handler (stubHost True) nextStub (GET ''/static/testfile.css'')
             (testWorld ''static'' 0 True))"
proof -
  let ?s = "testWorld ''static'' 0 True"
  have m: "mw ?s = NewStaticMiddleware (testConfig ''static'' 0 True)"
    and w: "?s\<lparr>rw := newResponse\<rparr> = ?s"
    by (simp_all add: testWorld_def start_def)
  from handleAll_total [OF m] obtain s1 where
    s1: "handleAll (stubHost True) nextStub [GET ''/static/testfile.css'', GET ''/nonexistent'']
           ?s = Inr s1"
    by blast
  from configuration_unchanged [OF s1, of newResponse "GET ''/static/testfile.css''"] s1 m w
  show ?thesis by simp
qed

section \<open>Rooting once, at construction\<close>

text \<open>
  Claim C8. The variant that computes the rooted view at construction and the
  implemented handler, constructed from the same configuration and started in worlds
  that look the same, answer every request alike: both return, with the same response,
  log lines and calls to the next handler and the file server, and neither changes its
  middleware instance, so the next request finds them in step again. (Rooting is a
  function of the file store and the root here; a store whose rooting changes over time
  is outside the model.)
\<close>

theorem rooting_once_equivalent:
  assumes "mw s = NewStaticMiddleware cfg" and "mw t = NewCachedMiddleware h cfg"
    and "observable s = observable t"
  shows "rel_sum (=) (\<lambda>s' t'. observable s' = observable t' \<and> mw s' = mw s \<and> mw t' = mw t)
           (Handler h nxt r s) (CachedHandler h nxt r t)"
proof -
  have R: "rel_sum (=) (agree h) (Handler h nxt r s) (CachedHandler h nxt r t)"
    using assms by (intro Handler_agree New_agree)
  show ?thesis
  proof (cases "Handler h nxt r s")
    case (Inl p)
    with R show ?thesis by (cases "CachedHandler h nxt r t") simp_all
  next
    case (Inr s')
    with R obtain t' where t': "CachedHandler h nxt r t = Inr t'" and ag: "agree h s' t'"
      by (cases "CachedHandler h nxt r t") simp_all
    from ag have "observable s' = observable t'" by (simp add: agree_def)
    moreover have "mw s' = mw s" using Inr by (rule Handler_mw)
    moreover have "mw t' = mw t" using t' by (rule CachedHandler_mw)
    ultimately show ?thesis using Inr t' by simp
  qed
qed

text \<open>Both variants on the test's configuration and \<^verbatim>\<open>GET /static/testfile.css\<close>.\<close>

theorem rooting_once_equivalent_witness:
  "map_sum id observable
     (Handler (stubHost True) nextStub (GET ''/static/testfile.css'') (testWorld ''static'' 0 True))
   = map_sum id observable
     (CachedHandler (stubHost True) nextStub (GET ''/static/testfile.css'')
        (start (NewCachedMiddleware (stubHost True) (testConfig ''static'' 0 True))))"
proof -
  let ?s = "testWorld ''static'' 0 True"
  let ?t = "start (NewCachedMiddleware (stubHost True) (testConfig ''static'' 0 True))
              :: (MapFS CachedMiddleware, MapFS) world"
  have "mw ?s = NewStaticMiddleware (testConfig ''static'' 0 True)"
    and "mw ?t = NewCachedMiddleware (stubHost True) (testConfig ''static'' 0 True)"
    and "observable ?s = observable ?t"
    by (simp_all add: testWorld_def start_def observable_def)
  from rooting_once_equivalent [OF this, of nextStub "GET ''/static/testfile.css''"]
  show ?thesis
    by (cases "Handler (stubHost True) nextStub (GET ''/static/testfile.css'') ?s";
        cases "CachedHandler (stubHost True) nextStub (GET ''/static/testfile.css'') ?t")
       simp_all
qed

section \<open>Rooting failure\<close>

text \<open>
  Claim C4, as stated: for a request with the prefix, when rooting fails the response
  has status 500 and a plain-text body equal to the error's message. The body is not
  equal to the message: \<^verbatim>\<open>http.Error\<close> prints the message with a newline after it. The
  test's malformed root \<^verbatim>\<open>./static\<close>:
\<close>

theorem rooting_failure_body_counterexample:
  "fsSub (stubHost True) mockFS ''./static'' = Inl ''sub ./static: invalid argument''
   \<and> (\<exists>s'. Handler (stubHost True) nextStub (GET ''/static/testfile.css'')
              (testWorld ''./static'' 0 True) = Inr s'
          \<and> status (rw s') = Some 500
          \<and> body (rw s') \<noteq> ''sub ./static: invalid argument'')"
proof -
  have "mw (testWorld ''./static'' 0 True) = NewStaticMiddleware (testConfig ''./static'' 0 True)"
    and "prefix (StaticFilePrefix (testConfig ''./static'' 0 True))
           (Path (GET ''/static/testfile.css''))"
    and "fsSub (stubHost True) (StaticFS (testConfig ''./static'' 0 True))
           (StaticRoot (testConfig ''./static'' 0 True))
         = Inl ''sub ./static: invalid argument''"
    by (simp_all add: testWorld_sel testConfig_sel stubHost_sel mapSub_dot_static GET_def)
  from Handler_rooting_failed [OF this, of nextStub] show ?thesis
    by (simp add: stubHost_sel mapSub_dot_static testWorld_sel newResponse_def
          httpError_status httpError_body StatusInternalServerError_def)
qed


text \<open>
  Claim C4, amended. For a request with the prefix, when rooting fails the handler
  returns with the reply of \<^verbatim>\<open>http.Error\<close> for the error's message and status 500: the
  status is 500 (on a response writer nothing was written to before), the content
  type is plain text, and the body is the message followed by a newline. The error
  goes no further: the next handler is not called, the file server is not called and
  rooting is not tried again, and the middleware instance is unchanged.
\<close>

theorem rooting_failure_reply:
  assumes m: "mw s = NewStaticMiddleware cfg"
    and p: "prefix (StaticFilePrefix cfg) (Path r)"
    and sub: "fsSub h (StaticFS cfg) (StaticRoot cfg) = Inl err"
  shows "\<exists>s'. Handler h nxt r s = Inr s'
           \<and> rw s' = httpError (rw s) err StatusInternalServerError
           \<and> (status (rw s) = None \<longrightarrow> status (rw s') = Some 500)
           \<and> body (rw s') = body (rw s) @ err @ [CHR 0x0A]
           \<and> header (rw s') ''Content-Type'' = Some [''text/plain; charset=utf-8'']
           \<and> nextCalls s' = nextCalls s \<and> fileCalls s' = fileCalls s \<and> mw s' = mw s"
  using Handler_rooting_failed [OF m p sub, of nxt]
  by (simp add: httpError_status httpError_body httpError_header StatusInternalServerError_def)


text \<open>The test's malformed root again: status 500, the message and a newline.\<close>

theorem rooting_failure_reply_witness:
  "\<exists>s'. Handler (stubHost True) nextStub (GET ''/static/testfile.css'')
           (testWorld ''./static'' 0 True) = Inr s'
       \<and> status (rw s') = Some 500
       \<and> body (rw s') = ''sub ./static: invalid argument'' @ [CHR 0x0A]
       \<and> nextCalls s' = [] \<and> fileCalls s' = []"
proof -
  have "mw (testWorld ''./static'' 0 True) = NewStaticMiddleware (testConfig ''./static'' 0 True)"
    and "prefix (StaticFilePrefix (testConfig ''./static'' 0 True))
           (Path (GET ''/static/testfile.css''))"
    and "fsSub (stubHost True) (StaticFS (testConfig ''./static'' 0 True))
           (StaticRoot (testConfig ''./static'' 0 True))
         = Inl ''sub ./static: invalid argument''"
    by (simp_all add: testWorld_sel testConfig_sel stubHost_sel mapSub_dot_static GET_def)
  from rooting_failure_reply [OF this, of nextStub] show ?thesis
    by (auto simp: testWorld_sel newResponse_def)
qed

section \<open>Paths with the prefix that resolve to no file\<close>







section \<open>Delegation to the file server\<close>

text \<open>
  Claim C5, as stated: whenever rooting succeeded, the file server is invoked exactly
  once, with the prefix removed from the path. Prefix stripping also looks at the
  escaped path: when that is set and does not begin with the prefix,
  \<^verbatim>\<open>http.StripPrefix\<close> answers 404 itself and the file server is not invoked. The test's
  configuration and \<^verbatim>\<open>GET /%73tatic/testfile.css\<close>, a file that exists:
\<close>

theorem escaped_prefix_not_delegated_counterexample:
  "prefix (StaticFilePrefix (testConfig ''static'' 0 False)) (Path escapedRequest)
   \<and> fsSub (stubHost True) (StaticFS (testConfig ''static'' 0 False))
         (StaticRoot (testConfig ''static'' 0 False))
       = Inr [(''testfile.css'', ''body {}'')]
   \<and> (\<exists>s'. Handler (stubHost True) nextStub escapedRequest (testWorld ''static'' 0 False)
            = Inr s'
          \<and> fileCalls s' = [] \<and> status (rw s') = Some 404)"
proof -
  let ?cfg = "testConfig ''static'' 0 False"
  let ?w = "testWorld ''static'' 0 False"
  have m: "mw ?w = NewStaticMiddleware ?cfg"
    by (rule testWorld_sel)
  have p: "prefix (StaticFilePrefix ?cfg) (Path escapedRequest)"
    by (simp add: testConfig_sel escapedRequest_def)
  have sub: "fsSub (stubHost True) (StaticFS ?cfg) (StaticRoot ?cfg)
             = Inr [(''testfile.css'', ''body {}'')]"
    by (rule test_rooted)
  have raw: "\<not> (RawPath escapedRequest = []
               \<or> prefix (StaticFilePrefix ?cfg) (RawPath escapedRequest))"
    by (simp add: testConfig_sel escapedRequest_def)
  from Handler_rooted_sel [OF m p sub, where nxt = nextStub] raw
  have "\<exists>s'. Handler (stubHost True) nextStub escapedRequest ?w = Inr s'
          \<and> fileCalls s' = fileCalls ?w
          \<and> rw s' = NotFound (withCacheControl ?cfg (rw ?w))"
    by auto
  moreover have "fileCalls ?w = []" "status (withCacheControl ?cfg (rw ?w)) = None"
    by (simp_all add: testWorld_sel withCacheControl_status newResponse_def)
  ultimately show ?thesis
    using p sub by (auto simp: NotFound_status StatusNotFound_def)
qed

text \<open>
  Claim C5, amended. For every request whose path starts with the prefix, when rooting
  succeeded: if the request's escaped path is empty or also starts with the prefix,
  the file server is invoked exactly once, on the rooted view and on the request with
  the prefix removed from its path (and from its escaped path), and the response is
  what it writes; otherwise the file server is not invoked and the response is the
  404 of prefix stripping.
\<close>

theorem delegation_strips_prefix:
  assumes m: "mw s = NewStaticMiddleware cfg"
    and p: "prefix (StaticFilePrefix cfg) (Path r)"
    and sub: "fsSub h (StaticFS cfg) (StaticRoot cfg) = Inr staticFS"
  shows "\<exists>s'. Handler h nxt r s = Inr s'
           \<and> (if RawPath r = [] \<or> prefix (StaticFilePrefix cfg) (RawPath r)
              then fileCalls s' = fileCalls s @ [(staticFS, stripped (StaticFilePrefix cfg) r)]
                   \<and> rw s' = fileServer h staticFS (stripped (StaticFilePrefix cfg) r)
                              (withCacheControl cfg (rw s))
                   \<and> StaticFilePrefix cfg @ Path (stripped (StaticFilePrefix cfg) r) = Path r
              else fileCalls s' = fileCalls s
                   \<and> rw s' = NotFound (withCacheControl cfg (rw s)))"
proof -
  from p have "StaticFilePrefix cfg @ Path (stripped (StaticFilePrefix cfg) r) = Path r"
    by (auto simp: stripped_def prefix_def)
  with Handler_rooted_sel [OF m p sub, of nxt] show ?thesis
    by auto
qed


text \<open>The test of the existing file: one call to the file server, on the view rooted at
  \<^verbatim>\<open>static\<close> and the path \<^verbatim>\<open>/testfile.css\<close>.\<close>

theorem delegation_strips_prefix_witness:
  "\<exists>s'. Handler (stubHost True) nextStub (GET ''/static/testfile.css'')
           (testWorld ''static'' 0 False) = Inr s'
       \<and> fileCalls s' = [([(''testfile.css'', ''body {}'')], GET ''/testfile.css'')]
       \<and> status (rw s') = Some 200 \<and> body (rw s') = ''body {}''"
proof -
  let ?cfg = "testConfig ''static'' 0 False"
  have m: "mw (testWorld ''static'' 0 False) = NewStaticMiddleware ?cfg"
    by (rule testWorld_sel)
  have p: "prefix (StaticFilePrefix ?cfg) (Path (GET ''/static/testfile.css''))"
    by (rule test_matched)
  have sub: "fsSub (stubHost True) (StaticFS ?cfg) (StaticRoot ?cfg)
             = Inr [(''testfile.css'', ''body {}'')]"
    by (rule test_rooted)
  from delegation_strips_prefix [OF m p sub, where nxt = nextStub]
  show ?thesis
    by (auto simp: testWorld_sel testConfig_sel GET_sel stripped_GET stubHost_sel stub_found
        withCacheControl_def newResponse_def Write_def WriteHeader_def Let_def)
qed


section \<open>The Cache-Control header\<close>

text \<open>
  Claim C9, as stated: with a positive cache duration and successful rooting the
  header is on every response to a request with the prefix, a 404 included, because it
  is written before the file server runs. What the file server does with the header
  is the file server's business: one that clears it before an error reply (as
  net/http's does since Go 1.23) answers 404 without it.
\<close>

theorem cache_control_dropped_counterexample:
  "0 < CacheDuration (testConfig ''static'' 31536000000000000 False)
   \<and> fsSub (stubHost False) (StaticFS (testConfig ''static'' 31536000000000000 False))
       (StaticRoot (testConfig ''static'' 31536000000000000 False))
     = Inr [(''testfile.css'', ''body {}'')]
   \<and> (\<exists>s'. Handler (stubHost False) nextStub (GET ''/static/testfile.txt'')
              (testWorld ''static'' 31536000000000000 False) = Inr s'
          \<and> status (rw s') = Some 404
          \<and> header (rw s') ''Cache-Control'' = None)"
proof -
  let ?cfg = "testConfig ''static'' 31536000000000000 False"
  have m: "mw (testWorld ''static'' 31536000000000000 False) = NewStaticMiddleware ?cfg"
    by (rule testWorld_sel)
  have p: "prefix (StaticFilePrefix ?cfg) (Path (GET ''/static/testfile.txt''))"
    by (rule test_matched)
  have sub: "fsSub (stubHost False) (StaticFS ?cfg) (StaticRoot ?cfg)
             = Inr [(''testfile.css'', ''body {}'')]"
    by (rule test_rooted)
  from Handler_rooted_sel [OF m p sub, where nxt = nextStub] sub
  show ?thesis
    by (auto simp: testWorld_sel testConfig_sel GET_sel stripped_GET stubHost_sel
        stub_missing newResponse_def httpError_status httpError_header StatusNotFound_def
        HeaderSet_def HeaderDel_def withCacheControl_def)
qed


text \<open>
  Claim C9, amended. With a positive cache duration, for every request whose path
  starts with the prefix: when rooting succeeds, the header
  \<^verbatim>\<open>Cache-Control: public, max-age=S\<close> is on the response writer before the file server
  is invoked, whether or not the path resolves to a file; it is on the response
  whenever the file server leaves it in place, and on the 404 of prefix stripping.
  When rooting fails, the 500 reply has the Cache-Control header the response writer
  came with: the middleware does not set it.
\<close>

theorem cache_control_before_delegation:
  assumes m: "mw s = NewStaticMiddleware cfg"
    and p: "prefix (StaticFilePrefix cfg) (Path r)"
    and d: "0 < CacheDuration cfg"
  shows "\<exists>s'. Handler h nxt r s = Inr s'
           \<and> (case fsSub h (StaticFS cfg) (StaticRoot cfg) of
                 Inl err \<Rightarrow> header (rw s') ''Cache-Control'' = header (rw s) ''Cache-Control''
               | Inr staticFS \<Rightarrow>
                   (let v = cacheControlValue (CacheDuration cfg);
                        w1 = HeaderSet ''Cache-Control'' v (rw s);
                        r1 = stripped (StaticFilePrefix cfg) r
                    in header w1 ''Cache-Control'' = Some [v]
                       \<and> (if RawPath r = [] \<or> prefix (StaticFilePrefix cfg) (RawPath r)
                          then rw s' = fileServer h staticFS r1 w1
                               \<and> (header (fileServer h staticFS r1 w1) ''Cache-Control''
                                    = header w1 ''Cache-Control''
                                  \<longrightarrow> header (rw s') ''Cache-Control'' = Some [v])
                          else rw s' = NotFound w1
                               \<and> header (rw s') ''Cache-Control'' = Some [v])))"
proof (cases "fsSub h (StaticFS cfg) (StaticRoot cfg)")
  case (Inl err)
  with Handler_rooting_failed [OF m p Inl, of nxt] show ?thesis
    by (simp add: httpError_header)
next
  case (Inr staticFS)
  have w: "withCacheControl cfg (rw s)
           = HeaderSet ''Cache-Control'' (cacheControlValue (CacheDuration cfg)) (rw s)"
    using d by (simp add: withCacheControl_def)
  from Handler_rooted_sel [OF m p Inr, of nxt] obtain s' where
    "Handler h nxt r s = Inr s'"
    "rw s' = (if RawPath r = [] \<or> prefix (StaticFilePrefix cfg) (RawPath r)
              then fileServer h staticFS (stripped (StaticFilePrefix cfg) r)
                     (withCacheControl cfg (rw s))
              else NotFound (withCacheControl cfg (rw s)))"
    by blast
  with Inr w show ?thesis
    by (auto simp: Let_def HeaderSet_def NotFound_def httpError_header)
qed



text \<open>A file server that leaves the header in place: the 404 for a missing file
  carries it.\<close>

theorem cache_control_before_delegation_witness:
  "\<exists>s'. Handler (stubHost True) nextStub (GET ''/static/testfile.txt'')
           (testWorld ''static'' 31536000000000000 False) = Inr s'
       \<and> status (rw s') = Some 404
       \<and> header (rw s') ''Cache-Control'' = Some [''public, max-age=31536000'']"
proof -
  let ?cfg = "testConfig ''static'' 31536000000000000 False"
  have m: "mw (testWorld ''static'' 31536000000000000 False) = NewStaticMiddleware ?cfg"
    by (rule testWorld_sel)
  have p: "prefix (StaticFilePrefix ?cfg) (Path (GET ''/static/testfile.txt''))"
    by (rule test_matched)
  have d: "0 < CacheDuration ?cfg"
    by (simp add: testConfig_sel)
  from cache_control_before_delegation [OF m p d, where h = "stubHost True" and nxt = nextStub]
  show ?thesis
    by (auto simp: mapSub_static testWorld_sel testConfig_sel GET_sel stripped_GET stubHost_sel
        stub_missing newResponse_def httpError_status httpError_header StatusNotFound_def
        HeaderSet_def cacheControlValue_year Let_def)
qed


subsection \<open>The seconds of a whole number of seconds\<close>

text \<open>An integer below \<open>2\<^sup>5\<^sup>3\<close> is a float64, so for a duration of \<open>n\<close> whole seconds
  \<^verbatim>\<open>Seconds\<close> is exactly \<open>n\<close> and the header value is \<^verbatim>\<open>public, max-age=n\<close> (every int64
  duration has fewer than \<open>2\<^sup>5\<^sup>3\<close> seconds).\<close>

lemma rne_of_int: "rne (of_int m) = m"
  by (simp add: rne_def)

lemma bitlen_pos: "0 < n \<Longrightarrow> 1 \<le> bitlen n"
  using bitlen_eq_zero_iff [of n] bitlen_nonneg [of n] by linarith

lemma ilog2_of_int:
  assumes "0 < n"
  shows "ilog2 (of_int n) = bitlen n - 1"
proof -
  have b: "1 \<le> bitlen n" using assms by (rule bitlen_pos)
  have "(2::int) ^ nat (bitlen n - 1) \<le> n"
    using bitlen_bounds [OF assms] by simp
  then have "(of_int ((2::int) ^ nat (bitlen n - 1)) :: rat) \<le> of_int n"
    by (simp only: of_int_le_iff)
  then have "(2::rat) powi (bitlen n - 1) \<le> of_int n"
    using b by (simp add: power_int_def)
  moreover have "bitlen 1 = 1"
    by (simp add: bitlen_alt_def)
  ultimately show ?thesis
    by (simp add: ilog2_def)
qed

lemma float64_of_int:
  assumes "0 < n" and "n < 2 ^ 53"
  shows "float64 (of_int n) = of_int n"
proof -
  have b: "1 \<le> bitlen n" using assms(1) by (rule bitlen_pos)
  have "(2::int) ^ nat (bitlen n - 1) \<le> n"
    using bitlen_bounds [OF assms(1)] by simp
  with assms(2) have "(2::int) ^ nat (bitlen n - 1) < 2 ^ 53" by linarith
  then have "nat (bitlen n - 1) < 53"
    by (rule power_less_imp_less_exp [rotated]) simp
  with b have le: "bitlen n \<le> 53" by linarith
  define k where "k = nat (53 - bitlen n)"
  have e: "ilog2 \<bar>of_int n\<bar> - 52 = - int k"
    using assms(1) le by (simp add: ilog2_of_int k_def)
  have "(of_int n :: rat) / 2 powi (- int k) = of_int (n * 2 ^ k)"
    by (simp add: power_int_minus field_simps)
  then have "rne (of_int n / 2 powi (- int k)) = n * 2 ^ k"
    by (simp only: rne_of_int)
  then have "float64 (of_int n) = of_int (n * 2 ^ k) * 2 powi (- int k)"
    using assms(1) e by (simp add: float64_def Let_def)
  also have "\<dots> = of_int n"
    by (simp add: power_int_minus field_simps)
  finally show ?thesis .
qed

lemma float64_zero: "float64 0 = 0"
  by (simp add: float64_def)

lemma Seconds_whole:
  assumes "0 < n" and "n < 2 ^ 53"
  shows "Seconds (n * Second) = of_int n"
proof -
  have d: "(n * Second) sdiv Second = n" "(n * Second) smod Second = 0"
    using assms(1) by (simp_all add: Second_def signed_divide_int_def signed_modulo_int_def
        sgn_mult abs_mult)
  have "float64 (of_int n) = of_int n"
    using assms by (rule float64_of_int)
  then show ?thesis
    by (simp add: Seconds_def d float64_zero Let_def)
qed

lemma truncInt_of_int: "truncInt (of_int n) = n"
  by (simp add: truncInt_def)

lemma cacheControlValue_whole:
  assumes "0 < n" and "n < 2 ^ 53"
  shows "cacheControlValue (n * Second) = ''public, max-age='' @ itoa n"
  using Seconds_whole [OF assms] by (simp add: cacheControlValue_def truncInt_of_int)

subsection \<open>The seconds of a duration below \<open>2\<^sup>2\<^sup>4\<close> seconds\<close>

text \<open>
  Rounding to a float64 moves a value by at most half a unit in the last place. Below
  \<open>2\<^sup>2\<^sup>4\<close> seconds (about 194 days) that is at most \<open>2\<^sup>-\<^sup>3\<^sup>0\<close>, less than the nanosecond
  that separates the largest fraction from the next whole second: the float64 seconds
  stay below the next whole second, and \<^verbatim>\<open>int(D.Seconds())\<close> is the whole seconds of D.
\<close>

lemma rne_error: "\<bar>of_int (rne z) - z\<bar> \<le> 1 / 2"
proof -
  have "of_int \<lfloor>z\<rfloor> \<le> z" "z < of_int \<lfloor>z\<rfloor> + 1" by linarith+
  then show ?thesis
    by (auto simp: rne_def Let_def)
qed

lemma rne_ge: "of_int m \<le> z \<Longrightarrow> m \<le> rne z"
proof -
  assume "of_int m \<le> z"
  then have "m \<le> \<lfloor>z\<rfloor>" by (simp add: le_floor_iff)
  then show ?thesis by (auto simp: rne_def Let_def)
qed

lemma rne_below_half:
  assumes "z < of_int m - 1 / 2"
  shows "rne z \<le> m - 1"
proof -
  have f: "\<lfloor>z\<rfloor> \<le> m - 1"
  proof -
    have "z < of_int m" using assms by linarith
    then show ?thesis by (simp add: floor_less_iff)
  qed
  show ?thesis
  proof (cases "\<lfloor>z\<rfloor> = m - 1")
    case True
    then have "z - of_int \<lfloor>z\<rfloor> < 1 / 2" using assms by simp
    then show ?thesis using True by (simp add: rne_def Let_def)
  next
    case False
    with f have "\<lfloor>z\<rfloor> + 1 \<le> m - 1" by linarith
    then show ?thesis by (auto simp: rne_def Let_def)
  qed
qed


lemma bitlen_powi:
  assumes "0 < n"
  shows "(2::rat) powi (bitlen n - 1) \<le> of_int n" and "(of_int n :: rat) < 2 powi bitlen n"
proof -
  have b: "1 \<le> bitlen n" using assms by (rule bitlen_pos)
  have "(2::int) ^ nat (bitlen n - 1) \<le> n" and "n < 2 ^ nat (bitlen n)"
    using bitlen_bounds [OF assms] by simp_all
  then have "(of_int ((2::int) ^ nat (bitlen n - 1)) :: rat) \<le> of_int n"
    and "(of_int n :: rat) < of_int ((2::int) ^ nat (bitlen n))"
    by (simp_all only: of_int_le_iff of_int_less_iff)
  then show "(2::rat) powi (bitlen n - 1) \<le> of_int n" and "(of_int n :: rat) < 2 powi bitlen n"
    using b by (simp_all add: power_int_def)
qed

lemma ilog2_bounds:
  assumes "0 < x"
  shows "2 powi (ilog2 x) \<le> x" and "x < 2 powi (ilog2 x + 1)"
proof -
  obtain n d where q: "quotient_of x = (n, d)" by (cases "quotient_of x")
  then have d: "0 < d" by (rule quotient_of_denom_pos)
  from q have x: "x = of_int n / of_int d" by (rule quotient_of_div)
  with assms d have n: "0 < n" by (simp add: zero_less_divide_iff)
  define k where "k = bitlen n - bitlen d"
  have D: "0 < (of_int d :: rat)" using d by simp
  have up: "x < 2 powi (k + 1)"
  proof -
    have "x * of_int d = of_int n" using x D by simp
    also have "\<dots> < 2 powi bitlen n" using n by (rule bitlen_powi)
    also have "\<dots> = 2 powi (k + 1) * 2 powi (bitlen d - 1)"
      by (simp add: k_def power_int_add [symmetric])
    also have "\<dots> \<le> 2 powi (k + 1) * of_int d"
      using bitlen_powi(1) [OF d] by (simp add: zero_less_power_int)
    finally show ?thesis using D by simp
  qed
  have low: "2 powi (k - 1) \<le> x"
  proof -
    have "(2::rat) powi (k - 1) * of_int d \<le> 2 powi (k - 1) * 2 powi bitlen d"
      using bitlen_powi(2) [OF d] by (simp add: zero_less_power_int less_imp_le)
    also have "\<dots> = 2 powi (bitlen n - 1)"
      by (simp add: k_def power_int_add [symmetric])
    also have "\<dots> \<le> of_int n" using n by (rule bitlen_powi)
    also have "\<dots> = x * of_int d" using x D by simp
    finally show ?thesis using D by simp
  qed
  have i: "ilog2 x = (if 2 powi k \<le> x then k else k - 1)"
    using q by (simp add: ilog2_def k_def Let_def)
  show "2 powi (ilog2 x) \<le> x" using i low by simp
  show "x < 2 powi (ilog2 x + 1)" using i up by (auto simp: not_le)
qed

lemma ilog2_less:
  assumes "0 < x" and "x < 2 powi m"
  shows "ilog2 x < m"
proof (rule ccontr)
  assume "\<not> ilog2 x < m"
  then have "m \<le> ilog2 x" by simp
  then have "(2::rat) powi m \<le> 2 powi (ilog2 x)"
    by (simp add: power_int_increasing)
  also have "\<dots> \<le> x" using assms(1) by (rule ilog2_bounds)
  finally show False using assms(2) by simp
qed


lemma powi_half: "(2::rat) powi (m - 53) = 2 powi (m - 52) / 2"
  using power_int_add_1 [of "2::rat" "m - 53"] by simp

lemma float64_error:
  assumes "0 < x"
  shows "\<bar>float64 x - x\<bar> \<le> 2 powi (ilog2 x - 53)"
proof -
  define P :: rat where "P = 2 powi (ilog2 x - 52)"
  have P: "0 < P" by (simp add: P_def zero_less_power_int)
  define z where "z = x / P"
  have "float64 x = of_int (rne z) * P"
    using assms by (simp add: float64_def Let_def P_def z_def)
  moreover have "x = z * P" using P by (simp add: z_def)
  ultimately have "float64 x - x = (of_int (rne z) - z) * P"
    by (simp add: algebra_simps)
  then have "\<bar>float64 x - x\<bar> = \<bar>of_int (rne z) - z\<bar> * P"
    using P by (simp add: abs_mult)
  also have "\<dots> \<le> (1 / 2) * P"
    using rne_error [of z] P by (intro mult_right_mono) simp_all
  also have "\<dots> = 2 powi (ilog2 x - 53)"
    by (simp add: P_def powi_half)
  finally show ?thesis .
qed

lemma float64_nonneg: "0 \<le> x \<Longrightarrow> 0 \<le> float64 x"
proof -
  assume x: "0 \<le> x"
  have "0 \<le> rne (x / 2 powi (ilog2 \<bar>x\<bar> - 52))"
    using x by (intro rne_ge) (simp add: zero_le_power_int)
  then show ?thesis
    by (simp add: float64_def Let_def zero_le_power_int)
qed

lemma float64_between:
  assumes y: "0 < y" and e: "ilog2 y \<le> 52"
    and lo: "of_int a \<le> y" and hi: "y < of_int a + 1 - 2 powi (ilog2 y - 53)"
  shows "of_int a \<le> float64 y" and "float64 y < of_int a + 1"
proof -
  define k where "k = nat (52 - ilog2 y)"
  have ee: "ilog2 y - 52 = - int k" using e by (simp add: k_def)
  define P :: rat where "P = 2 powi (- int k)"
  define K :: rat where "K = 2 ^ k"
  have P: "0 < P" and K: "0 < K" by (simp_all add: P_def K_def zero_less_power_int)
  have PK: "P * K = 1" by (simp add: P_def K_def power_int_minus)
  then have yP: "x / P = x * K" for x
    using P by (simp add: field_simps)
  define z where "z = y * K"
  have f: "float64 y = of_int (rne z) * P"
    using y ee by (simp add: float64_def Let_def P_def [symmetric] z_def yP)
  have half: "(2::rat) powi (ilog2 y - 53) = P / 2"
    using ee by (simp add: P_def powi_half)
  have zlo: "of_int (a * 2 ^ k) \<le> z"
  proof -
    have "of_int (a * 2 ^ k) = of_int a * K" by (simp add: K_def)
    also have "\<dots> \<le> y * K" using lo K by (intro mult_right_mono) simp_all
    finally show ?thesis by (simp add: z_def)
  qed
  have zhi: "z < of_int ((a + 1) * 2 ^ k) - 1 / 2"
  proof -
    have "z < (of_int a + 1 - P / 2) * K"
      unfolding z_def using hi K by (intro mult_strict_right_mono) (simp_all add: half)
    also have "\<dots> = (of_int a + 1) * K - (P * K) / 2"
      by (simp add: algebra_simps)
    also have "\<dots> = of_int ((a + 1) * 2 ^ k) - 1 / 2"
      unfolding PK by (simp add: K_def)
    finally show ?thesis .
  qed
  have "of_int a = of_int (a * 2 ^ k) * P"
  proof -
    have "of_int (a * 2 ^ k) * P = of_int a * (P * K)" by (simp add: K_def mult_ac)
    then show ?thesis unfolding PK by simp
  qed
  also have "\<dots> \<le> of_int (rne z) * P"
  proof -
    have "(of_int (a * 2 ^ k) :: rat) \<le> of_int (rne z)"
      using rne_ge [OF zlo] by (simp only: of_int_le_iff)
    then show ?thesis using P by (intro mult_right_mono) simp_all
  qed
  finally show "of_int a \<le> float64 y" using f by simp
  have "of_int (rne z) * P \<le> of_int ((a + 1) * 2 ^ k - 1) * P"
  proof -
    have "(of_int (rne z) :: rat) \<le> of_int ((a + 1) * 2 ^ k - 1)"
      using rne_below_half [OF zhi] by (simp only: of_int_le_iff)
    then show ?thesis using P by (intro mult_right_mono) simp_all
  qed
  also have "\<dots> = (of_int a + 1) * (P * K) - P"
    by (simp add: K_def algebra_simps)
  also have "\<dots> < of_int a + 1"
    unfolding PK using P by simp
  finally show "float64 y < of_int a + 1" using f by simp
qed


lemma float64_of_nat_range:
  assumes "0 \<le> n" and "n < 2 ^ 53"
  shows "float64 (of_int n) = of_int n"
  using assms float64_of_int [of n] by (cases "n = 0") (simp_all add: float64_zero)

lemma sdiv_smod_nonneg:
  assumes "0 \<le> k" and "0 < l"
  shows "k sdiv l = k div l" and "k smod l = k mod (l::int)"
  using assms by (simp_all add: signed_divide_int_def signed_modulo_int_def sgn_if)

lemma float64_fraction:
  assumes "0 \<le> q" and "q \<le> 1 - 1 / 1000000000"
  shows "0 \<le> float64 q" and "float64 q \<le> q + 1 / 2 ^ 54"
proof -
  show "0 \<le> float64 q" using assms(1) by (rule float64_nonneg)
  show "float64 q \<le> q + 1 / 2 ^ 54"
  proof (cases "q = 0")
    case True
    then show ?thesis by (simp add: float64_zero)
  next
    case False
    with assms(1) have q: "0 < q" by simp
    have "q < 2 powi 0" using assms(2) by simp
    with q have "ilog2 q < 0" by (rule ilog2_less)
    then have "(2::rat) powi (ilog2 q - 53) \<le> 2 powi (- 54)"
      by (intro power_int_increasing) simp_all
    also have "\<dots> = 1 / 2 ^ 54" by (simp add: power_int_minus field_simps)
    finally have "\<bar>float64 q - q\<bar> \<le> 1 / 2 ^ 54"
      using float64_error [OF q] by linarith
    then show ?thesis by linarith
  qed
qed

lemma Seconds_below_2_24:
  assumes "0 \<le> d" and "d < 2 ^ 24 * Second"
  shows "of_int (d div Second) \<le> Seconds d" and "Seconds d < of_int (d div Second) + 1"
proof -
  define sec where "sec = d div Second"
  define nsec where "nsec = d mod Second"
  have S: "0 < Second" by (simp add: Second_def)
  have sec: "0 \<le> sec" "sec < 2 ^ 24"
  proof -
    show "0 \<le> sec" using assms(1) S by (simp add: sec_def pos_imp_zdiv_nonneg_iff)
    have "d < 16777216 * 1000000000" using assms(2) by (simp add: Second_def)
    then have "d div 1000000000 < 16777216" by linarith
    then show "sec < 2 ^ 24" by (simp add: sec_def Second_def)
  qed
  have nsec: "0 \<le> nsec" "nsec < 1000000000"
    using S by (simp_all add: nsec_def Second_def)
  have sd: "d sdiv Second = sec" "d smod Second = nsec"
    using sdiv_smod_nonneg [OF assms(1) S] by (simp_all add: sec_def nsec_def)
  have A: "float64 (of_int sec) = of_int sec"
    using sec by (intro float64_of_nat_range) simp_all
  have B: "float64 (of_int nsec) = of_int nsec"
    using nsec by (intro float64_of_nat_range) simp_all
  have C: "float64 1000000000 = 1000000000"
    using float64_of_int [of 1000000000] by simp
  define q :: rat where "q = of_int nsec / 1000000000"
  define f where "f = float64 q"
  have q: "0 \<le> q" "q \<le> 1 - 1 / 1000000000"
  proof -
    show "0 \<le> q" using nsec by (simp add: q_def)
    have "nsec \<le> 999999999" using nsec by simp
    then have "(of_int nsec :: rat) \<le> 999999999" by (simp only: of_int_le_iff of_int_numeral)
    then show "q \<le> 1 - 1 / 1000000000" by (simp add: q_def field_simps)
  qed
  have f: "0 \<le> f" "f \<le> q + 1 / 2 ^ 54"
    using float64_fraction [OF q] by (simp_all add: f_def)
  define y where "y = of_int sec + f"
  have Sy: "Seconds d = float64 y"
    by (simp add: Seconds_def sd A B C Let_def y_def f_def q_def)
  have ylo: "of_int sec \<le> y" using f by (simp add: y_def)
  have yhi: "y < of_int sec + 1 - 1 / 2 ^ 30"
  proof -
    have "y \<le> of_int sec + (1 - 1 / 1000000000 + 1 / 2 ^ 54)"
      using f q by (simp add: y_def)
    also have "\<dots> < of_int sec + 1 - 1 / 2 ^ 30" by simp
    finally show ?thesis .
  qed
  have "of_int sec \<le> float64 y \<and> float64 y < of_int sec + 1"
  proof (cases "y = 0")
    case True
    with ylo sec have "sec = 0" by simp
    with True show ?thesis by (simp add: float64_zero)
  next
    case False
    with ylo sec have y: "0 < y" by simp
    have "(of_int sec :: rat) + 1 \<le> 2 powi 24"
    proof -
      have "sec + 1 \<le> 2 ^ 24" using sec by simp
      then have "(of_int (sec + 1) :: rat) \<le> of_int (2 ^ 24)" by (simp only: of_int_le_iff)
      then show ?thesis by simp
    qed
    with yhi have "y < 2 powi 24" by simp
    with y have i: "ilog2 y < 24" by (rule ilog2_less)
    then have "(2::rat) powi (ilog2 y - 53) \<le> 2 powi (- 30)"
      by (intro power_int_increasing) simp_all
    also have "\<dots> = 1 / 2 ^ 30" by (simp add: power_int_minus field_simps)
    finally have "y < of_int sec + 1 - 2 powi (ilog2 y - 53)"
      using yhi by linarith
    moreover have "ilog2 y \<le> 52" using i by simp
    ultimately show ?thesis
      using float64_between [OF y _ ylo] by blast
  qed
  then show "of_int (d div Second) \<le> Seconds d" and "Seconds d < of_int (d div Second) + 1"
    by (simp_all add: Sy sec_def)
qed

lemma truncInt_Seconds:
  assumes "0 \<le> d" and "d < 2 ^ 24 * Second"
  shows "truncInt (Seconds d) = d div Second"
proof -
  have S: "0 < Second" by (simp add: Second_def)
  have "0 \<le> d div Second" using assms(1) S by (simp add: pos_imp_zdiv_nonneg_iff)
  then have "(0::rat) \<le> of_int (d div Second)" by simp
  with Seconds_below_2_24 [OF assms] have "0 \<le> Seconds d" by linarith
  moreover have "\<lfloor>Seconds d\<rfloor> = d div Second"
    using Seconds_below_2_24 [OF assms] by (simp add: floor_unique)
  ultimately show ?thesis by (simp add: truncInt_def)
qed

text \<open>
  Claim C3: with a positive cache duration D, a successful file response carries
  \<^verbatim>\<open>Cache-Control: public, max-age=S\<close> with S the whole seconds of D, truncated. The code
  computes S as \<^verbatim>\<open>int(D.Seconds())\<close>, through a float64. That is the whole seconds of D
  for every D below \<open>2\<^sup>2\<^sup>4\<close> seconds and for every D of a whole number of seconds (the
  lemmas above), but not always: for D = 16777216.999999999 s the float64 sum of
  16777216 and 0.999999999 rounds to 16777217, and the header says
  \<^verbatim>\<open>max-age=16777217\<close>, one second more than the 16777216 whole seconds of D.
\<close>

theorem max_age_rounded_up:
  "16777216999999999 sdiv Second = (16777216 :: int)
   \<and> (\<exists>s'. Handler (stubHost True) nextStub (GET ''/static/testfile.css'')
              (testWorld ''static'' 16777216999999999 False) = Inr s'
          \<and> status (rw s') = Some 200
          \<and> header (rw s') ''Cache-Control'' = Some [''public, max-age=16777217''])"
proof -
  let ?cfg = "testConfig ''static'' 16777216999999999 False"
  have m: "mw (testWorld ''static'' 16777216999999999 False) = NewStaticMiddleware ?cfg"
    by (rule testWorld_sel)
  have p: "prefix (StaticFilePrefix ?cfg) (Path (GET ''/static/testfile.css''))"
    by (rule test_matched)
  have sub: "fsSub (stubHost True) (StaticFS ?cfg) (StaticRoot ?cfg)
             = Inr [(''testfile.css'', ''body {}'')]"
    by (rule test_rooted)
  have "16777216999999999 sdiv Second = (16777216 :: int)"
    by (simp add: Second_def signed_divide_int_def)
  moreover from Handler_rooted_sel [OF m p sub, where nxt = nextStub]
  have "\<exists>s'. Handler (stubHost True) nextStub (GET ''/static/testfile.css'')
              (testWorld ''static'' 16777216999999999 False) = Inr s'
          \<and> status (rw s') = Some 200
          \<and> header (rw s') ''Cache-Control'' = Some [''public, max-age=16777217'']"
    by (auto simp: testWorld_sel testConfig_sel GET_sel stripped_GET stubHost_sel
        stub_found newResponse_def Write_def WriteHeader_def Let_def
        HeaderSet_def withCacheControl_def cacheControlValue_late)
  ultimately show ?thesis by blast
qed


end
